theory Spec2Isabelle
  imports Main "HOL-Library.Sublist"
begin

section \<open>EPUB utilities: the data\<close>

text \<open>
  The development follows \<^verbatim>\<open>skills/epub-translator/scripts/epub_utils.py\<close>.
  The script works on three kinds of data: XML element trees (the container descriptor
  and the package document), a file system (the working directory), and ZIP archives.
  File contents and Python strings are both byte strings here.
\<close>

type_synonym bytes = string

subsection \<open>Exceptions\<close>

text \<open>
  \<open>FileNotFoundError\<close> and \<open>ValueError\<close> carry the message given at the
  \<^verbatim>\<open>raise\<close>. \<open>TypeError\<close> is what \<^verbatim>\<open>Path / None\<close> raises, \<open>ParseError\<close> is
  \<^verbatim>\<open>xml.etree.ElementTree.ParseError\<close>, and \<open>OSError\<close> stands for every failure of a
  system call on the file system below (a missing file, a file where a directory is
  needed, a directory where a file is needed, a name that is taken); which subclass of
  \<^verbatim>\<open>OSError\<close> Python raises for it is not tracked.
\<close>

datatype error =
    FileNotFoundError string
  | ValueError string
  | TypeError
  | ParseError
  | OSError

subsection \<open>Element trees\<close>

text \<open>
  An \<^verbatim>\<open>xml.etree.ElementTree.Element\<close>: the tag in Clark notation
  (\<^verbatim>\<open>{uri}local\<close>), the attribute dictionary, the text before the first child
  (\<^verbatim>\<open>None\<close> when there is none), the children in document order and the tail.
\<close>

datatype element =
  Element (tag: string) (attrib: "(string \<times> string) list") (text_of: "string option")
    (children: "element list") (tail: "string option")

text \<open>\<^verbatim>\<open>item.get(key, "")\<close>\<close>

definition get_attr :: "element \<Rightarrow> string \<Rightarrow> string \<Rightarrow> string" where
  "get_attr e k dflt = (case map_of (attrib e) k of None \<Rightarrow> dflt | Some v \<Rightarrow> v)"

text \<open>
  \<^verbatim>\<open>elem.find(".//t")\<close> is the first element with tag \<open>t\<close> among the descendants of
  \<^verbatim>\<open>elem\<close> in document order, \<^verbatim>\<open>elem\<close> itself excluded: \<open>find_in\<close> searches a
  forest in preorder, and \<open>find_desc\<close> applies it to the children.
\<close>

fun find_in :: "string \<Rightarrow> element list \<Rightarrow> element option" where
  "find_in t [] = None"
| "find_in t (Element tg a tx ch ta # es) =
     (if tg = t then Some (Element tg a tx ch ta)
      else (case find_in t ch of Some x \<Rightarrow> Some x | None \<Rightarrow> find_in t es))"

definition find_desc :: "string \<Rightarrow> element \<Rightarrow> element option" where
  "find_desc t e = find_in t (children e)"

text \<open>\<^verbatim>\<open>elem.findall("t")\<close>: the children of \<^verbatim>\<open>elem\<close> with tag \<open>t\<close>, in order.\<close>

definition findall :: "string \<Rightarrow> element \<Rightarrow> element list" where
  "findall t e = filter (\<lambda>c. tag c = t) (children e)"

text \<open>
  The script mutates the element that \<^verbatim>\<open>find\<close> returned, in place. In the model the
  tree is rebuilt with \<open>f\<close> applied to the very element \<open>find_in\<close> returns; a forest
  without a match is returned as it is.
\<close>

fun modify_in :: "string \<Rightarrow> (element \<Rightarrow> element) \<Rightarrow> element list \<Rightarrow> element list" where
  "modify_in t f [] = []"
| "modify_in t f (Element tg a tx ch ta # es) =
     (if tg = t then f (Element tg a tx ch ta) # es
      else (case find_in t ch of
              Some x \<Rightarrow> Element tg a tx (modify_in t f ch) ta # es
            | None \<Rightarrow> Element tg a tx ch ta # modify_in t f es))"

definition modify_desc :: "string \<Rightarrow> (element \<Rightarrow> element) \<Rightarrow> element \<Rightarrow> element" where
  "modify_desc t f e =
     Element (tag e) (attrib e) (text_of e) (modify_in t f (children e)) (tail e)"

definition set_text :: "string option \<Rightarrow> element \<Rightarrow> element" where
  "set_text x e = Element (tag e) (attrib e) x (children e) (tail e)"

subsection \<open>The metadata edits\<close>

definition OPF_METADATA :: string where
  "OPF_METADATA = ''{http://www.idpf.org/2007/opf}metadata''"

definition OPF_MANIFEST :: string where
  "OPF_MANIFEST = ''{http://www.idpf.org/2007/opf}manifest''"

definition OPF_ITEM :: string where
  "OPF_ITEM = ''{http://www.idpf.org/2007/opf}item''"

definition DC_LANGUAGE :: string where
  "DC_LANGUAGE = ''{http://purl.org/dc/elements/1.1/}language''"

definition DC_TITLE :: string where
  "DC_TITLE = ''{http://purl.org/dc/elements/1.1/}title''"

definition CONTAINER_ROOTFILE :: string where
  "CONTAINER_ROOTFILE = ''{urn:oasis:names:tc:opendocument:xmlns:container}rootfile''"

text \<open>Python's \<^verbatim>\<open>a in b\<close> on strings: \<open>a\<close> occurs in \<open>b\<close> as a contiguous piece.\<close>

fun str_in :: "string \<Rightarrow> string \<Rightarrow> bool" where
  "str_in a [] = (a = [])"
| "str_in a (c # cs) = (prefix a (c # cs) \<or> str_in a cs)"

text \<open>
  Lines 139--142 of \<^verbatim>\<open>update_metadata\<close>, on the metadata element: the text of the
  first \<^verbatim>\<open>dc:language\<close> descendant becomes \<open>lang_code\<close>.
\<close>

definition update_language :: "string \<Rightarrow> element \<Rightarrow> element" where
  "update_language lang_code metadata =
     (case find_desc DC_LANGUAGE metadata of
        None \<Rightarrow> metadata
      | Some lang \<Rightarrow> modify_desc DC_LANGUAGE (set_text (Some lang_code)) metadata)"

text \<open>
  Lines 144--149: with a non-empty suffix, a title whose text is neither
  \<^verbatim>\<open>None\<close> nor empty and does not contain the suffix gets
  \<^verbatim>\<open>f"{title.text} {title_suffix}"\<close>.
\<close>

definition update_title :: "string \<Rightarrow> element \<Rightarrow> element" where
  "update_title title_suffix metadata =
     (if title_suffix \<noteq> [] then
        (case find_desc DC_TITLE metadata of
           None \<Rightarrow> metadata
         | Some title \<Rightarrow>
             (case text_of title of
                None \<Rightarrow> metadata
              | Some tx \<Rightarrow>
                  if tx \<noteq> [] \<and> \<not> str_in title_suffix tx
                  then modify_desc DC_TITLE (set_text (Some (tx @ '' '' @ title_suffix))) metadata
                  else metadata))
      else metadata)"

text \<open>Lines 137--149: the tree after the edits, from the parsed root.\<close>

definition edit_metadata :: "element \<Rightarrow> string \<Rightarrow> string \<Rightarrow> element" where
  "edit_metadata root lang_code title_suffix =
     (case find_desc OPF_METADATA root of
        None \<Rightarrow> root
      | Some metadata \<Rightarrow>
          modify_desc OPF_METADATA
            (\<lambda>m. update_title title_suffix (update_language lang_code m)) root)"

section \<open>Paths\<close>

text \<open>
  A \<^verbatim>\<open>pathlib.PurePosixPath\<close>: the root (\<^verbatim>\<open>''\<close>, \<^verbatim>\<open>'/'\<close>, or \<^verbatim>\<open>'//'\<close> for exactly
  two leading slashes) and the components. Parsing drops empty components and
  \<^verbatim>\<open>'.'\<close>, and keeps \<^verbatim>\<open>'..'\<close>.
\<close>

datatype path = Path (anchor: string) (parts: "string list")

text \<open>\<^verbatim>\<open>s.split(c)\<close>\<close>

fun split_on :: "char \<Rightarrow> string \<Rightarrow> string list" where
  "split_on c [] = [[]]"
| "split_on c (x # xs) =
     (if x = c then [] # split_on c xs
      else (case split_on c xs of [] \<Rightarrow> [[x]] | w # ws \<Rightarrow> (x # w) # ws))"

text \<open>\<^verbatim>\<open>sep.join(xs)\<close>\<close>

fun join_with :: "string \<Rightarrow> string list \<Rightarrow> string" where
  "join_with sep [] = []"
| "join_with sep [x] = x"
| "join_with sep (x # y # ys) = x @ sep @ join_with sep (y # ys)"

definition splitroot :: "string \<Rightarrow> string \<times> string" where
  "splitroot s =
     (let stripped = dropWhile (\<lambda>c. c = CHR ''/'') s in
      if s \<noteq> [] \<and> hd s = CHR ''/'' then
        (if length s - length stripped = 2 then (''//'', stripped) else (''/'', stripped))
      else ([], s))"

text \<open>\<^verbatim>\<open>Path(s)\<close>\<close>

definition parse_path :: "string \<Rightarrow> path" where
  "parse_path s =
     (case splitroot s of
        (r, rel) \<Rightarrow> Path r (filter (\<lambda>x. x \<noteq> [] \<and> x \<noteq> ''.'') (split_on CHR ''/'' rel)))"

text \<open>\<^verbatim>\<open>p / q\<close>: a second operand with a root replaces the first.\<close>

definition joinpath :: "path \<Rightarrow> path \<Rightarrow> path" where
  "joinpath p q = (if anchor q \<noteq> [] then q else Path (anchor p) (parts p @ parts q))"

definition join_str :: "path \<Rightarrow> string \<Rightarrow> path" where
  "join_str p s = joinpath p (parse_path s)"

text \<open>\<^verbatim>\<open>p.parent\<close>: a path without components is its own parent.\<close>

definition parent :: "path \<Rightarrow> path" where
  "parent p = (if parts p = [] then p else Path (anchor p) (butlast (parts p)))"

text \<open>\<^verbatim>\<open>str(p)\<close>\<close>

definition str_path :: "path \<Rightarrow> string" where
  "str_path p =
     (if anchor p = [] \<and> parts p = [] then ''.''
      else anchor p @ join_with ''/'' (parts p))"

text \<open>
  \<^verbatim>\<open>p.relative_to(other)\<close>: \<^verbatim>\<open>ValueError\<close> unless both have the same root and the
  components of \<open>other\<close> begin those of \<open>p\<close>.
\<close>

definition relative_to :: "path \<Rightarrow> path \<Rightarrow> error + path" where
  "relative_to p other =
     (if anchor p = anchor other \<and> prefix (parts other) (parts p)
      then Inr (Path [] (drop (length (parts other)) (parts p)))
      else Inl (ValueError ''not in the subpath''))"

section \<open>The file system\<close>

text \<open>
  A tree of regular files and directories; a directory lists its entries in the order
  in which \<^verbatim>\<open>os.scandir\<close> reports them. There are no symbolic links, no permissions
  and no special files: every file can be read and every directory written. A location
  is the list of names from the root directory down to a node.
\<close>

datatype node = File bytes | Dir "(string \<times> node) list"

record filesystem =
  fs_root :: node
  cwd :: "string list"

fun lookup :: "node \<Rightarrow> string list \<Rightarrow> node option" where
  "lookup n [] = Some n"
| "lookup (File d) (c # cs) = None"
| "lookup (Dir es) (c # cs) = (case map_of es c of None \<Rightarrow> None | Some n \<Rightarrow> lookup n cs)"

text \<open>
  \<open>put n l new\<close> places \<open>new\<close> at location \<open>l\<close> below \<open>n\<close>: it replaces the node there, or
  becomes a new last entry of the directory above, which must exist.
\<close>

fun update_entry :: "string \<Rightarrow> node \<Rightarrow> (string \<times> node) list \<Rightarrow> (string \<times> node) list" where
  "update_entry k v [] = [(k, v)]"
| "update_entry k v (p # ps) = (if fst p = k then (k, v) # ps else p # update_entry k v ps)"

fun put :: "node \<Rightarrow> string list \<Rightarrow> node \<Rightarrow> node" where
  "put n [] new = new"
| "put (File d) (c # cs) new = File d"
| "put (Dir es) (c # cs) new =
     (case map_of es c of
        None \<Rightarrow> (if cs = [] then Dir (es @ [(c, new)]) else Dir es)
      | Some ch \<Rightarrow> Dir (update_entry c (put ch cs new) es))"

text \<open>
  How the system resolves the components of a path from a location: \<^verbatim>\<open>'..'\<close> goes to
  the directory above (the root is its own parent), any other name to the entry of
  that name, and every node passed on the way must be a directory.
\<close>

fun locate :: "node \<Rightarrow> string list \<Rightarrow> string list \<Rightarrow> string list option" where
  "locate r l [] = (case lookup r l of None \<Rightarrow> None | Some n \<Rightarrow> Some l)"
| "locate r l (c # cs) =
     (case lookup r l of
        Some (Dir es) \<Rightarrow>
          (if c = ''..'' then locate r (butlast l) cs
           else (case map_of es c of None \<Rightarrow> None | Some n \<Rightarrow> locate r (l @ [c]) cs))
      | _ \<Rightarrow> None)"

text \<open>
  A path with a root is resolved from the root directory, any other from the working
  directory; nothing resolves while the starting point is not a directory.
\<close>

definition start_of :: "filesystem \<Rightarrow> path \<Rightarrow> string list" where
  "start_of fs p = (if anchor p = [] then cwd fs else [])"

definition resolve :: "filesystem \<Rightarrow> path \<Rightarrow> string list option" where
  "resolve fs p =
     (case lookup (fs_root fs) (start_of fs p) of
        Some (Dir es) \<Rightarrow> locate (fs_root fs) (start_of fs p) (parts p)
      | _ \<Rightarrow> None)"

text \<open>\<^verbatim>\<open>os.stat\<close>, as far as the model goes: the node a path names, if any.\<close>

definition stat :: "filesystem \<Rightarrow> path \<Rightarrow> node option" where
  "stat fs p = (case resolve fs p of None \<Rightarrow> None | Some l \<Rightarrow> lookup (fs_root fs) l)"

text \<open>\<^verbatim>\<open>p.exists()\<close>: true of files and of directories.\<close>

definition path_exists :: "filesystem \<Rightarrow> path \<Rightarrow> bool" where
  "path_exists fs p = (stat fs p \<noteq> None)"

text \<open>\<^verbatim>\<open>open(p, "rb").read()\<close>\<close>

definition read_file :: "filesystem \<Rightarrow> path \<Rightarrow> error + bytes" where
  "read_file fs p = (case stat fs p of Some (File d) \<Rightarrow> Inr d | _ \<Rightarrow> Inl OSError)"

text \<open>
  \<^verbatim>\<open>open(p, "wb").write(d)\<close>: the directory that holds the last component must exist;
  the file is created there or its contents replaced.
\<close>

definition write_file :: "filesystem \<Rightarrow> path \<Rightarrow> bytes \<Rightarrow> error + filesystem" where
  "write_file fs p d =
     (if parts p = [] \<or> last (parts p) = ''..'' then Inl OSError
      else
        (case resolve fs (Path (anchor p) (butlast (parts p))) of
           None \<Rightarrow> Inl OSError
         | Some l \<Rightarrow>
             (case lookup (fs_root fs) l of
                Some (Dir es) \<Rightarrow>
                  (case map_of es (last (parts p)) of
                     Some (Dir sub) \<Rightarrow> Inl OSError
                   | _ \<Rightarrow> Inr (fs\<lparr>fs_root := put (fs_root fs) (l @ [last (parts p)]) (File d)\<rparr>))
              | _ \<Rightarrow> Inl OSError)))"

text \<open>
  \<^verbatim>\<open>p.mkdir(parents=True, exist_ok=True)\<close>: the components are walked from the start;
  a missing one is created as an empty directory, an existing directory is entered, and
  a regular file on the way is an error. The result is the new tree and the location
  reached.
\<close>

fun mkdirs :: "node \<Rightarrow> string list \<Rightarrow> string list \<Rightarrow> error + (node \<times> string list)" where
  "mkdirs r l [] = (case lookup r l of Some (Dir es) \<Rightarrow> Inr (r, l) | _ \<Rightarrow> Inl OSError)"
| "mkdirs r l (c # cs) =
     (case lookup r l of
        Some (Dir es) \<Rightarrow>
          (if c = ''..'' then mkdirs r (butlast l) cs
           else (case map_of es c of
                   None \<Rightarrow> mkdirs (put r (l @ [c]) (Dir [])) (l @ [c]) cs
                 | Some (Dir sub) \<Rightarrow> mkdirs r (l @ [c]) cs
                 | Some (File d) \<Rightarrow> Inl OSError))
      | _ \<Rightarrow> Inl OSError)"

definition mkdir_parents :: "filesystem \<Rightarrow> path \<Rightarrow> error + filesystem" where
  "mkdir_parents fs p =
     (case mkdirs (fs_root fs) (start_of fs p) (parts p) of
        Inl e \<Rightarrow> Inl e
      | Inr (r, l) \<Rightarrow> Inr (fs\<lparr>fs_root := r\<rparr>))"

text \<open>
  \<^verbatim>\<open>ET.parse(p).getroot()\<close> and \<^verbatim>\<open>tree.write(p, encoding='utf-8', xml_declaration=True)\<close>.
  The XML parser and serialiser belong to the Python library; they are the parameters
  \<open>ET_parse\<close> (\<open>None\<close> for a document that is not well-formed) and \<open>ET_write\<close>.
\<close>

definition parse_file ::
  "(bytes \<Rightarrow> element option) \<Rightarrow> filesystem \<Rightarrow> path \<Rightarrow> error + element" where
  "parse_file ET_parse fs p =
     (case read_file fs p of
        Inl e \<Rightarrow> Inl e
      | Inr d \<Rightarrow> (case ET_parse d of None \<Rightarrow> Inl ParseError | Some root \<Rightarrow> Inr root))"

text \<open>\<^verbatim>\<open>os.mkdir(p)\<close>: the directory above must exist and the name must be free.\<close>

definition mkdir :: "filesystem \<Rightarrow> path \<Rightarrow> error + filesystem" where
  "mkdir fs p =
     (if parts p = [] \<or> last (parts p) = ''..'' then Inl OSError
      else
        (case resolve fs (Path (anchor p) (butlast (parts p))) of
           None \<Rightarrow> Inl OSError
         | Some l \<Rightarrow>
             (case lookup (fs_root fs) l of
                Some (Dir es) \<Rightarrow>
                  (case map_of es (last (parts p)) of
                     None \<Rightarrow> Inr (fs\<lparr>fs_root := put (fs_root fs) (l @ [last (parts p)]) (Dir [])\<rparr>)
                   | Some n \<Rightarrow> Inl OSError)
              | _ \<Rightarrow> Inl OSError)))"

section \<open>Archives\<close>

text \<open>
  A ZIP archive as \<^verbatim>\<open>zipfile.ZipFile\<close> presents it: the members in the order of the
  archive, each with its name, its compression method and its (uncompressed) bytes.
  Reading the archive file itself and writing it are left to the library; the model
  starts from, and ends with, the member list.
\<close>

datatype compression = ZIP_STORED | ZIP_DEFLATED

record zip_entry =
  filename :: string
  compress_type :: compression
  data :: bytes

text \<open>\<^verbatim>\<open>ZipInfo.is_dir()\<close>: the name ends with a slash.\<close>

definition is_dir :: "zip_entry \<Rightarrow> bool" where
  "is_dir m = (filename m \<noteq> [] \<and> last (filename m) = CHR ''/'')"

text \<open>
  \<^verbatim>\<open>ZipFile.getinfo(name)\<close>: of several members with one name the last one is found.
\<close>

definition getinfo :: "zip_entry list \<Rightarrow> string \<Rightarrow> zip_entry option" where
  "getinfo zf name = find (\<lambda>m. filename m = name) (rev zf)"

text \<open>
  \<^verbatim>\<open>ZipFile._extract_member\<close> first removes empty components, \<^verbatim>\<open>'.'\<close> and
  \<^verbatim>\<open>'..'\<close> from the member's name.
\<close>

definition arcname_parts :: "string \<Rightarrow> string list" where
  "arcname_parts name =
     filter (\<lambda>x. x \<noteq> [] \<and> x \<noteq> ''.'' \<and> x \<noteq> ''..'') (split_on CHR ''/'' name)"

text \<open>
  Then it creates the directories above the target, and the target itself: a directory
  member makes a directory unless one is there, a file member creates the file or
  replaces its contents. \<open>expand n cs isdir d\<close> does this along the components \<open>cs\<close>,
  where \<open>n\<close> is the node at the current position, if there is one.
\<close>

fun expand :: "node option \<Rightarrow> string list \<Rightarrow> bool \<Rightarrow> bytes \<Rightarrow> error + node" where
  "expand None [] isdir d = Inr (if isdir then Dir [] else File d)"
| "expand (Some (File old)) [] isdir d = (if isdir then Inl OSError else Inr (File d))"
| "expand (Some (Dir es)) [] isdir d = (if isdir then Inr (Dir es) else Inl OSError)"
| "expand None (c # cs) isdir d =
     (case expand None cs isdir d of Inl e \<Rightarrow> Inl e | Inr n \<Rightarrow> Inr (Dir [(c, n)]))"
| "expand (Some (File old)) (c # cs) isdir d = Inl OSError"
| "expand (Some (Dir es)) (c # cs) isdir d =
     (case expand (map_of es c) cs isdir d of
        Inl e \<Rightarrow> Inl e
      | Inr n \<Rightarrow> Inr (Dir (update_entry c n es)))"

definition extract_member :: "node \<Rightarrow> zip_entry \<Rightarrow> error + node" where
  "extract_member target m =
     expand (Some target) (arcname_parts (filename m)) (is_dir m) (data m)"

text \<open>
  \<^verbatim>\<open>ZipFile.extractall(path)\<close> goes through \<^verbatim>\<open>namelist()\<close> and extracts, for each
  name, the member \<^verbatim>\<open>getinfo\<close> finds (it always finds one). The library joins \<open>path\<close> and the cleaned member
  name into one path; as that name has no \<^verbatim>\<open>'..'\<close>, the target lies below the directory
  \<open>path\<close> names, which the script has created before the call.
\<close>

fun extract_names :: "zip_entry list \<Rightarrow> string list \<Rightarrow> node \<Rightarrow> error + node" where
  "extract_names zf [] target = Inr target"
| "extract_names zf (name # names) target =
     (case getinfo zf name of
        None \<Rightarrow> Inl OSError
      | Some m \<Rightarrow>
          (case extract_member target m of
             Inl e \<Rightarrow> Inl e
           | Inr target' \<Rightarrow> extract_names zf names target'))"

definition extractall :: "filesystem \<Rightarrow> path \<Rightarrow> zip_entry list \<Rightarrow> error + filesystem" where
  "extractall fs p zf =
     (case resolve fs p of
        None \<Rightarrow> Inl OSError
      | Some l \<Rightarrow>
          (case lookup (fs_root fs) l of
             Some (Dir es) \<Rightarrow>
               (case extract_names zf (map filename zf) (Dir es) of
                  Inl e \<Rightarrow> Inl e
                | Inr target \<Rightarrow> Inr (fs\<lparr>fs_root := put (fs_root fs) l target\<rparr>))
           | _ \<Rightarrow> Inl OSError))"

text \<open>
  \<^verbatim>\<open>ZipFile(file, 'w')\<close> opens \<open>file\<close> for writing at once, as \<^verbatim>\<open>open(file, 'w+b')\<close>
  does: the directory that holds the last component must exist, the file is created
  there, or emptied when it exists, and a name that ends in a slash, in \<^verbatim>\<open>'.'\<close> or in
  \<^verbatim>\<open>'..'\<close>, or that names a directory, cannot be opened. Every failure is an
  \<^verbatim>\<open>OSError\<close> (\<^verbatim>\<open>FileNotFoundError\<close>, \<^verbatim>\<open>IsADirectoryError\<close> and the like are
  not told apart). The result is the file system with the open file in it, and the
  location of that file.
\<close>

definition open_output :: "filesystem \<Rightarrow> string \<Rightarrow> error + (filesystem \<times> string list)" where
  "open_output fs output_path =
     (let p = parse_path output_path in
      if parts p = [] \<or> last (split_on CHR ''/'' output_path) \<in> set [[], ''.'', ''..'']
      then Inl OSError
      else
        (case resolve fs (Path (anchor p) (butlast (parts p))) of
           None \<Rightarrow> Inl OSError
         | Some l \<Rightarrow>
             (case lookup (fs_root fs) l of
                Some (Dir es) \<Rightarrow>
                  (case map_of es (last (parts p)) of
                     Some (Dir sub) \<Rightarrow> Inl OSError
                   | _ \<Rightarrow> Inr (fs\<lparr>fs_root := put (fs_root fs) (l @ [last (parts p)]) (File [])\<rparr>,
                              l @ [last (parts p)]))
              | _ \<Rightarrow> Inl OSError)))"

text \<open>
  \<^verbatim>\<open>ZipFile.write(filename, arcname, compress_type)\<close>: a regular file becomes a member
  with the given method; a directory becomes a stored, empty member whose name gets a
  trailing slash. The library normalises \<open>arcname\<close> first, which leaves a relative path
  of entry names as it is. \<open>out\<close> is the location of the archive file that is open for
  writing and \<open>zf\<close> the members written so far. When the file to be added is the archive
  file itself, the library copies the file while it grows by what is copied: what is
  read is then what the library has written up to some point, or the copy ends with an
  error (the file has grown beyond a limit of the format or of the disk). This belongs
  to the library and is the parameter \<open>ZIP_partial\<close>.
\<close>

definition zf_write ::
  "(zip_entry list \<Rightarrow> error + bytes) \<Rightarrow> filesystem \<Rightarrow> string list \<Rightarrow> zip_entry list \<Rightarrow> path \<Rightarrow> string
     \<Rightarrow> compression \<Rightarrow> error + zip_entry" where
  "zf_write ZIP_partial fs out zf file_path arcname ctype =
     (case resolve fs file_path of
        None \<Rightarrow> Inl OSError
      | Some l \<Rightarrow>
          (case lookup (fs_root fs) l of
             None \<Rightarrow> Inl OSError
           | Some (File d) \<Rightarrow>
               (if l = out
                then (case ZIP_partial zf of
                        Inl e \<Rightarrow> Inl e
                      | Inr w \<Rightarrow> Inr \<lparr>filename = arcname, compress_type = ctype, data = w\<rparr>)
                else Inr \<lparr>filename = arcname, compress_type = ctype, data = d\<rparr>)
           | Some (Dir es) \<Rightarrow>
               Inr \<lparr>filename = arcname @ ''/'', compress_type = ZIP_STORED, data = []\<rparr>))"

text \<open>
  \<^verbatim>\<open>os.walk(top)\<close>, top-down: for a directory the triple of its path, the names of its
  subdirectories and the names of its other entries, then the walks of the
  subdirectories in that order. A \<open>top\<close> that \<^verbatim>\<open>os.scandir\<close> cannot list (it is missing,
  it is a regular file, or it is the empty string) gives no triple at all: the error is
  dropped, as \<^verbatim>\<open>onerror\<close> is \<^verbatim>\<open>None\<close>.
\<close>

definition dirnames :: "(string \<times> node) list \<Rightarrow> string list" where
  "dirnames es = map fst (filter (\<lambda>e. case snd e of Dir sub \<Rightarrow> True | File d \<Rightarrow> False) es)"

definition filenames :: "(string \<times> node) list \<Rightarrow> string list" where
  "filenames es = map fst (filter (\<lambda>e. case snd e of Dir sub \<Rightarrow> False | File d \<Rightarrow> True) es)"

fun walk_node :: "path \<Rightarrow> node \<Rightarrow> (path \<times> string list \<times> string list) list"
  and walk_entries :: "path \<Rightarrow> (string \<times> node) list \<Rightarrow> (path \<times> string list \<times> string list) list"
where
  "walk_node dirpath (File d) = []"
| "walk_node dirpath (Dir es) = (dirpath, dirnames es, filenames es) # walk_entries dirpath es"
| "walk_entries dirpath [] = []"
| "walk_entries dirpath ((name, File d) # es) = walk_entries dirpath es"
| "walk_entries dirpath ((name, Dir sub) # es) =
     walk_node (join_str dirpath name) (Dir sub) @ walk_entries dirpath es"

definition os_walk :: "filesystem \<Rightarrow> string \<Rightarrow> (path \<times> string list \<times> string list) list" where
  "os_walk fs topdir =
     (if topdir = [] then []
      else (case stat fs (parse_path topdir) of
              None \<Rightarrow> []
            | Some n \<Rightarrow> walk_node (parse_path topdir) n))"

section \<open>The functions of the script\<close>

subsection \<open>\<^verbatim>\<open>extract_epub\<close>\<close>

record epub_info =
  info_extract_dir :: string
  info_opf_path :: string
  info_opf_full_path :: string

text \<open>
  \<open>epub\<close> is the member list of the archive at \<^verbatim>\<open>epub_path\<close>. The result is the
  returned dictionary together with the file system after the call; the state a failed
  call leaves behind is not tracked. A rootfile without the \<^verbatim>\<open>full-path\<close> attribute
  makes \<^verbatim>\<open>opf_path\<close> \<^verbatim>\<open>None\<close>, and \<^verbatim>\<open>output_path / opf_path\<close> raises \<open>TypeError\<close>.
\<close>

definition extract_epub ::
  "(bytes \<Rightarrow> element option) \<Rightarrow> filesystem \<Rightarrow> zip_entry list \<Rightarrow> string
     \<Rightarrow> error + (epub_info \<times> filesystem)" where
  "extract_epub ET_parse fs epub output_dir =
     (let output_path = parse_path output_dir in
      case mkdir_parents fs output_path of
        Inl e \<Rightarrow> Inl e
      | Inr fs1 \<Rightarrow>
          (case extractall fs1 (parse_path output_dir) epub of
             Inl e \<Rightarrow> Inl e
           | Inr fs2 \<Rightarrow>
               (let container_path =
                      join_str (join_str output_path ''META-INF'') ''container.xml'' in
                if \<not> path_exists fs2 container_path
                then Inl (FileNotFoundError ''Invalid EPUB: container.xml not found'')
                else
                  (case parse_file ET_parse fs2 container_path of
                     Inl e \<Rightarrow> Inl e
                   | Inr root \<Rightarrow>
                       (case find_desc CONTAINER_ROOTFILE root of
                          None \<Rightarrow> Inl (ValueError ''No rootfile in container.xml'')
                        | Some rootfile \<Rightarrow>
                            (case map_of (attrib rootfile) ''full-path'' of
                               None \<Rightarrow> Inl TypeError
                             | Some opf \<Rightarrow>
                                 Inr (\<lparr>info_extract_dir = str_path output_path,
                                       info_opf_path = opf,
                                       info_opf_full_path =
                                         str_path (join_str output_path opf)\<rparr>,
                                      fs2)))))))"

subsection \<open>\<^verbatim>\<open>list_content_files\<close> and \<^verbatim>\<open>get_content_files\<close>\<close>

record content_file =
  item_id :: string
  href :: string
  path :: string
  media_type :: string

text \<open>
  The loop over the manifest items of \<^verbatim>\<open>list_content_files\<close> (lines 88--101);
  \<open>content_files\<close> is the list built so far.
\<close>

fun list_items :: "filesystem \<Rightarrow> path \<Rightarrow> element list \<Rightarrow> content_file list \<Rightarrow> content_file list"
where
  "list_items fs opf_dir [] content_files = content_files"
| "list_items fs opf_dir (item # items) content_files =
     (let mt = get_attr item ''media-type'' [];
          hr = get_attr item ''href'' [];
          iid = get_attr item ''id'' []
      in if mt \<in> set [''application/xhtml+xml'', ''text/html''] then
           (let full_path = join_str opf_dir hr in
            if path_exists fs full_path
            then list_items fs opf_dir items
                   (content_files @
                      [\<lparr>item_id = iid, href = hr, path = str_path full_path, media_type = mt\<rparr>])
            else list_items fs opf_dir items content_files)
         else list_items fs opf_dir items content_files)"

text \<open>
  \<open>temp_dir\<close> is the name \<^verbatim>\<open>tempfile.TemporaryDirectory()\<close> chooses; the directory is made
  on entry and removed with all it holds on exit, on every path, so only the returned
  list is kept.
\<close>

definition list_content_files ::
  "(bytes \<Rightarrow> element option) \<Rightarrow> filesystem \<Rightarrow> zip_entry list \<Rightarrow> string
     \<Rightarrow> error + content_file list" where
  "list_content_files ET_parse fs epub temp_dir =
     (case mkdir fs (parse_path temp_dir) of
        Inl e \<Rightarrow> Inl e
      | Inr fs1 \<Rightarrow>
          (case extract_epub ET_parse fs1 epub temp_dir of
             Inl e \<Rightarrow> Inl e
           | Inr (info, fs2) \<Rightarrow>
               (let opf_full = parse_path (info_opf_full_path info);
                    opf_dir = parent opf_full
                in case parse_file ET_parse fs2 opf_full of
                     Inl e \<Rightarrow> Inl e
                   | Inr root \<Rightarrow>
                       (case find_desc OPF_MANIFEST root of
                          None \<Rightarrow> Inr []
                        | Some manifest \<Rightarrow>
                            Inr (list_items fs2 opf_dir (findall OPF_ITEM manifest) [])))))"

text \<open>The loop of \<^verbatim>\<open>get_content_files\<close> (lines 118--125).\<close>

fun get_items :: "filesystem \<Rightarrow> path \<Rightarrow> element list \<Rightarrow> string list \<Rightarrow> string list" where
  "get_items fs opf_dir [] content_files = content_files"
| "get_items fs opf_dir (item # items) content_files =
     (let mt = get_attr item ''media-type'' [];
          hr = get_attr item ''href'' []
      in if mt \<in> set [''application/xhtml+xml'', ''text/html''] then
           (let full_path = join_str opf_dir hr in
            if path_exists fs full_path
            then get_items fs opf_dir items (content_files @ [str_path full_path])
            else get_items fs opf_dir items content_files)
         else get_items fs opf_dir items content_files)"

definition get_content_files ::
  "(bytes \<Rightarrow> element option) \<Rightarrow> filesystem \<Rightarrow> string \<Rightarrow> string \<Rightarrow> error + string list" where
  "get_content_files ET_parse fs extract_dir opf_path =
     (let opf_full = join_str (parse_path extract_dir) opf_path;
          opf_dir = parent opf_full
      in case parse_file ET_parse fs opf_full of
           Inl e \<Rightarrow> Inl e
         | Inr root \<Rightarrow>
             (case find_desc OPF_MANIFEST root of
                None \<Rightarrow> Inr []
              | Some manifest \<Rightarrow> Inr (get_items fs opf_dir (findall OPF_ITEM manifest) [])))"

subsection \<open>\<^verbatim>\<open>update_metadata\<close>\<close>

text \<open>
  The package document is parsed, edited and written back in every case; the result
  is the file system after the call.
\<close>

definition update_metadata ::
  "(bytes \<Rightarrow> element option) \<Rightarrow> (element \<Rightarrow> bytes) \<Rightarrow> filesystem \<Rightarrow> string \<Rightarrow> string
     \<Rightarrow> string \<Rightarrow> string \<Rightarrow> error + filesystem" where
  "update_metadata ET_parse ET_write fs extract_dir opf_path lang_code title_suffix =
     (let opf_full = join_str (parse_path extract_dir) opf_path in
      case parse_file ET_parse fs opf_full of
        Inl e \<Rightarrow> Inl e
      | Inr root \<Rightarrow>
          write_file fs opf_full (ET_write (edit_metadata root lang_code title_suffix)))"

text \<open>
  The \<^verbatim>\<open>update-meta\<close> branch of \<^verbatim>\<open>main\<close> (lines 228--235): \<^verbatim>\<open>--lang\<close> and
  \<^verbatim>\<open>--title-suffix\<close> are optional; without a non-empty language nothing is called.
\<close>

definition main_update_meta ::
  "(bytes \<Rightarrow> element option) \<Rightarrow> (element \<Rightarrow> bytes) \<Rightarrow> filesystem \<Rightarrow> string \<Rightarrow> string
     \<Rightarrow> string option \<Rightarrow> string option \<Rightarrow> error + filesystem" where
  "main_update_meta ET_parse ET_write fs extract_dir opf_path lang title_suffix =
     (case lang of
        None \<Rightarrow> Inr fs
      | Some l \<Rightarrow>
          if l = [] then Inr fs
          else update_metadata ET_parse ET_write fs extract_dir opf_path l
                 (case title_suffix of None \<Rightarrow> [] | Some s \<Rightarrow> s))"

subsection \<open>\<^verbatim>\<open>pack_epub\<close>\<close>

text \<open>
  The result is the list of members written to the archive, in order; when the call
  returns, the archive file holds the library's encoding of them. The archive file
  is opened first (line 159), which creates or empties it and fails when it cannot be
  opened; the test for \<^verbatim>\<open>mimetype\<close> and the walk see the file system with the open
  archive file in it, wherever it lies. The inner loop (lines 167--173) runs over the
  file names of one directory, the outer one (line 166) over the triples of the walk;
  \<open>zf\<close> is the archive so far. The names of a directory are listed after the archive
  file is there, and nothing but the contents of that file changes during the walk.
\<close>

fun pack_files ::
  "(zip_entry list \<Rightarrow> error + bytes) \<Rightarrow> filesystem \<Rightarrow> string list \<Rightarrow> path \<Rightarrow> path \<Rightarrow> string list
     \<Rightarrow> zip_entry list \<Rightarrow> error + zip_entry list"
where
  "pack_files ZIP_partial fs out source_path dirpath [] zf = Inr zf"
| "pack_files ZIP_partial fs out source_path dirpath (file # files) zf =
     (if file = ''mimetype'' then pack_files ZIP_partial fs out source_path dirpath files zf
      else
        (let file_path = join_str dirpath file in
         case relative_to file_path source_path of
           Inl e \<Rightarrow> Inl e
         | Inr arcname \<Rightarrow>
             (case zf_write ZIP_partial fs out zf file_path (str_path arcname) ZIP_DEFLATED of
                Inl e \<Rightarrow> Inl e
              | Inr m \<Rightarrow> pack_files ZIP_partial fs out source_path dirpath files (zf @ [m]))))"

fun pack_walk ::
  "(zip_entry list \<Rightarrow> error + bytes) \<Rightarrow> filesystem \<Rightarrow> string list \<Rightarrow> path
     \<Rightarrow> (path \<times> string list \<times> string list) list \<Rightarrow> zip_entry list \<Rightarrow> error + zip_entry list"
where
  "pack_walk ZIP_partial fs out source_path [] zf = Inr zf"
| "pack_walk ZIP_partial fs out source_path ((dirpath, dirs, files) # rest) zf =
     (case pack_files ZIP_partial fs out source_path dirpath files zf of
        Inl e \<Rightarrow> Inl e
      | Inr zf' \<Rightarrow> pack_walk ZIP_partial fs out source_path rest zf')"

definition pack_epub ::
  "(zip_entry list \<Rightarrow> error + bytes) \<Rightarrow> filesystem \<Rightarrow> string \<Rightarrow> string \<Rightarrow> error + zip_entry list" where
  "pack_epub ZIP_partial fs source_dir output_path =
     (let source_path = parse_path source_dir in
      case open_output fs output_path of
        Inl e \<Rightarrow> Inl e
      | Inr (fs1, out) \<Rightarrow>
          (let mimetype_path = join_str source_path ''mimetype'' in
           case (if path_exists fs1 mimetype_path
                 then (case zf_write ZIP_partial fs1 out [] mimetype_path ''mimetype'' ZIP_STORED of
                         Inl e \<Rightarrow> Inl e
                       | Inr m \<Rightarrow> Inr [m])
                 else Inr []) of
             Inl e \<Rightarrow> Inl e
           | Inr zf \<Rightarrow> pack_walk ZIP_partial fs1 out source_path (os_walk fs1 source_dir) zf))"

section \<open>Observations and example data\<close>

text \<open>
  \<^verbatim>\<open>Element.iter()\<close> over a forest: all elements in document order. It gives the
  induction principle for forests.
\<close>

fun preorder :: "element list \<Rightarrow> element list" where
  "preorder [] = []"
| "preorder (Element tg a tx ch ta # es) = Element tg a tx ch ta # preorder ch @ preorder es"

text \<open>
  The text of the title and of the language field as \<^verbatim>\<open>update_metadata\<close> finds them:
  \<open>None\<close> when there is no metadata element or no such field in it, \<open>Some None\<close> when
  the field has no text.
\<close>

definition title_text :: "element \<Rightarrow> string option option" where
  "title_text root =
     (case find_desc OPF_METADATA root of
        None \<Rightarrow> None
      | Some metadata \<Rightarrow> map_option text_of (find_desc DC_TITLE metadata))"

definition language_text :: "element \<Rightarrow> string option option" where
  "language_text root =
     (case find_desc OPF_METADATA root of
        None \<Rightarrow> None
      | Some metadata \<Rightarrow> map_option text_of (find_desc DC_LANGUAGE metadata))"

text \<open>
  The title the specification asks for, from the title before: a space and the suffix
  are appended when the suffix is not empty, the title has non-empty text and the
  suffix does not occur in it.
\<close>

definition spec_title :: "string \<Rightarrow> string option option \<Rightarrow> string option option" where
  "spec_title sfx tt =
     (case tt of
        Some (Some tx) \<Rightarrow>
          if sfx \<noteq> [] \<and> tx \<noteq> [] \<and> \<not> str_in sfx tx
          then Some (Some (tx @ '' '' @ sfx)) else tt
      | _ \<Rightarrow> tt)"

text \<open>
  The content entries the specification asks for, from the parsed package document and
  the directory that holds it: the manifest items in document order, those kept whose
  media type is one of the two and whose href, resolved against that directory, exists.
\<close>

definition content_item :: "filesystem \<Rightarrow> path \<Rightarrow> element \<Rightarrow> bool" where
  "content_item fs opf_dir item =
     (get_attr item ''media-type'' [] \<in> set [''application/xhtml+xml'', ''text/html'']
      \<and> path_exists fs (join_str opf_dir (get_attr item ''href'' [])))"

definition content_entry :: "path \<Rightarrow> element \<Rightarrow> content_file" where
  "content_entry opf_dir item =
     \<lparr>item_id = get_attr item ''id'' [],
      href = get_attr item ''href'' [],
      path = str_path (join_str opf_dir (get_attr item ''href'' [])),
      media_type = get_attr item ''media-type'' []\<rparr>"

definition spec_content_entries :: "filesystem \<Rightarrow> path \<Rightarrow> element \<Rightarrow> content_file list" where
  "spec_content_entries fs opf_dir root =
     (case find_desc OPF_MANIFEST root of
        None \<Rightarrow> []
      | Some manifest \<Rightarrow>
          map (content_entry opf_dir) (filter (content_item fs opf_dir) (findall OPF_ITEM manifest)))"

text \<open>The manifest items of a parsed package document, in document order.\<close>

definition manifest_items :: "element \<Rightarrow> element list" where
  "manifest_items root =
     (case find_desc OPF_MANIFEST root of None \<Rightarrow> [] | Some manifest \<Rightarrow> findall OPF_ITEM manifest)"

text \<open>
  Well-formed paths, as \<open>parse_path\<close> produces them: a component is not empty, is not
  \<^verbatim>\<open>'.'\<close> and has no slash. The name of a directory entry is moreover not \<^verbatim>\<open>'..'\<close>.
\<close>

definition valid_name :: "string \<Rightarrow> bool" where
  "valid_name n = (n \<noteq> [] \<and> n \<noteq> ''.'' \<and> CHR ''/'' \<notin> set n)"

definition wf_path :: "path \<Rightarrow> bool" where
  "wf_path p = (anchor p \<in> {[], ''/'', ''//''} \<and> (\<forall>x \<in> set (parts p). valid_name x))"

definition entry_name :: "string \<Rightarrow> bool" where
  "entry_name n = (valid_name n \<and> n \<noteq> ''..'')"

text \<open>
  A well-formed tree: in every directory the names are entry names and no name occurs
  twice.
\<close>

fun wf_node :: "node \<Rightarrow> bool" and wf_entries :: "(string \<times> node) list \<Rightarrow> bool" where
  "wf_node (File d) = True"
| "wf_node (Dir es) = (distinct (map fst es) \<and> wf_entries es)"
| "wf_entries [] = True"
| "wf_entries ((name, n) # es) = (entry_name name \<and> wf_node n \<and> wf_entries es)"

text \<open>
  All regular files below a directory, each with its components relative to the
  directory and its contents, in the order in which \<^verbatim>\<open>os.walk\<close> meets them: the files
  of the directory itself, then those of its subdirectories, one subdirectory after
  the other.
\<close>

fun dir_files :: "(string \<times> node) list \<Rightarrow> (string list \<times> bytes) list" where
  "dir_files [] = []"
| "dir_files ((name, File d) # es) = ([name], d) # dir_files es"
| "dir_files ((name, Dir sub) # es) = dir_files es"

fun tree_files :: "node \<Rightarrow> (string list \<times> bytes) list"
  and sub_files :: "(string \<times> node) list \<Rightarrow> (string list \<times> bytes) list"
where
  "tree_files (File d) = []"
| "tree_files (Dir es) = dir_files es @ sub_files es"
| "sub_files [] = []"
| "sub_files ((name, File d) # es) = sub_files es"
| "sub_files ((name, Dir sub) # es) =
     map (\<lambda>(rp, d). (name # rp, d)) (tree_files (Dir sub)) @ sub_files es"

text \<open>
  The archive member \<^verbatim>\<open>pack_epub\<close> is to write for a file with the relative
  components \<open>rp\<close>, and the member a top-level \<^verbatim>\<open>mimetype\<close> gives.
\<close>

definition deflated_member :: "string list \<times> bytes \<Rightarrow> zip_entry" where
  "deflated_member f =
     \<lparr>filename = join_with ''/'' (fst f), compress_type = ZIP_DEFLATED, data = snd f\<rparr>"

definition mimetype_member :: "node \<Rightarrow> zip_entry list" where
  "mimetype_member source =
     (case lookup source [''mimetype''] of
        None \<Rightarrow> []
      | Some (File d) \<Rightarrow> [\<lparr>filename = ''mimetype'', compress_type = ZIP_STORED, data = d\<rparr>]
      | Some (Dir es) \<Rightarrow> [\<lparr>filename = ''mimetype/'', compress_type = ZIP_STORED, data = []\<rparr>])"

text \<open>
  The members the walk of \<^verbatim>\<open>pack_epub\<close> is to add to the archive \<open>zf\<close> for the files
  \<open>fl\<close>, given by their components relative to the source directory and their contents,
  where \<open>l\<close> is the location of the source directory: one deflated member for each, with
  the contents of the file, or, for the open archive file itself, with what the library
  reads from it, if that copy comes to an end.
\<close>

fun add_members ::
  "(zip_entry list \<Rightarrow> error + bytes) \<Rightarrow> string list \<Rightarrow> string list
     \<Rightarrow> (string list \<times> bytes) list \<Rightarrow> zip_entry list \<Rightarrow> error + zip_entry list" where
  "add_members ZIP_partial out l [] zf = Inr zf"
| "add_members ZIP_partial out l (f # fl) zf =
     (if l @ fst f = out
      then (case ZIP_partial zf of
              Inl e \<Rightarrow> Inl e
            | Inr w \<Rightarrow>
                add_members ZIP_partial out l fl
                  (zf @ [\<lparr>filename = join_with ''/'' (fst f), compress_type = ZIP_DEFLATED,
                           data = w\<rparr>]))
      else add_members ZIP_partial out l fl
             (zf @ [\<lparr>filename = join_with ''/'' (fst f), compress_type = ZIP_DEFLATED,
                      data = snd f\<rparr>]))"

text \<open>
  The member a top-level \<^verbatim>\<open>mimetype\<close> gives when the archive file is open at \<open>out\<close>:
  it differs from \<open>mimetype_member\<close> only when that file is the archive file itself.
\<close>

definition first_member ::
  "(zip_entry list \<Rightarrow> error + bytes) \<Rightarrow> string list \<Rightarrow> string list \<Rightarrow> node
     \<Rightarrow> error + zip_entry list" where
  "first_member ZIP_partial out l source =
     (case lookup source [''mimetype''] of
        None \<Rightarrow> Inr []
      | Some (File d) \<Rightarrow>
          (if l @ [''mimetype''] = out
           then (case ZIP_partial [] of
                   Inl e \<Rightarrow> Inl e
                 | Inr w \<Rightarrow>
                     Inr [\<lparr>filename = ''mimetype'', compress_type = ZIP_STORED, data = w\<rparr>])
           else Inr [\<lparr>filename = ''mimetype'', compress_type = ZIP_STORED, data = d\<rparr>])
      | Some (Dir es) \<Rightarrow> Inr [\<lparr>filename = ''mimetype/'', compress_type = ZIP_STORED, data = []\<rparr>])"

text \<open>Whether the location \<open>out\<close> is the directory the path \<open>p\<close> names, or lies below it.\<close>

definition below :: "filesystem \<Rightarrow> path \<Rightarrow> string list \<Rightarrow> bool" where
  "below fs p out = (case resolve fs p of None \<Rightarrow> False | Some l \<Rightarrow> prefix l out)"

text \<open>
  A path string that stays inside the directory it is joined to: it has no root and no
  component \<^verbatim>\<open>'..'\<close>.
\<close>

definition inner_path :: "string \<Rightarrow> bool" where
  "inner_path s = (anchor (parse_path s) = [] \<and> ''..'' \<notin> set (parts (parse_path s)))"

text \<open>The last component of a member name.\<close>

definition basename :: "string \<Rightarrow> string" where
  "basename s = last (split_on CHR ''/'' s)"

text \<open>
  The archives and target directories of the round trip. A plain member is a file
  whose name is already in the form the extractor reduces names to: components
  separated by single slashes, none of them empty, \<^verbatim>\<open>'.'\<close> or \<^verbatim>\<open>'..'\<close> (so the name
  neither starts nor ends with a slash). In a plain archive all members are plain, no
  name occurs twice, and \<^verbatim>\<open>mimetype\<close> is the first or the last component of the
  top-level name \<^verbatim>\<open>mimetype\<close> only. A target is fresh when it is an empty directory,
  or is missing and named without \<^verbatim>\<open>'..'\<close>.
\<close>

definition plain_member :: "zip_entry \<Rightarrow> bool" where
  "plain_member m =
     (arcname_parts (filename m) \<noteq> []
      \<and> join_with ''/'' (arcname_parts (filename m)) = filename m)"

definition plain_archive :: "zip_entry list \<Rightarrow> bool" where
  "plain_archive zf =
     (distinct (map filename zf)
      \<and> list_all plain_member zf
      \<and> list_all (\<lambda>m. filename m = ''mimetype''
                        \<or> (last (arcname_parts (filename m)) \<noteq> ''mimetype''
                            \<and> hd (arcname_parts (filename m)) \<noteq> ''mimetype'')) zf)"

definition fresh_target :: "filesystem \<Rightarrow> path \<Rightarrow> bool" where
  "fresh_target fs p =
     (stat fs p = Some (Dir []) \<or> (stat fs p = None \<and> ''..'' \<notin> set (parts p)))"

text \<open>The entry set of an archive: names and byte contents.\<close>

definition entry_set :: "zip_entry list \<Rightarrow> (string \<times> bytes) set" where
  "entry_set zf = set (map (\<lambda>m. (filename m, data m)) zf)"

text \<open>Whether a node is a directory, and the same at a location of a tree.\<close>

fun is_dir_node :: "node \<Rightarrow> bool" where
  "is_dir_node (Dir es) = True"
| "is_dir_node (File d) = False"

definition kind :: "node \<Rightarrow> string list \<Rightarrow> bool option" where
  "kind r q = map_option is_dir_node (lookup r q)"

text \<open>
  A small book: the container descriptor, a package document with a title, a language
  and two manifest items, and the same package document after the update of the
  specification's scenario. The example parser and serialiser know a few documents
  only, by a one-letter file content. As with the library, one tree has several
  spellings: \<^verbatim>\<open>p\<close> and \<^verbatim>\<open>P\<close> are two spellings of a package document without
  metadata (say, with and without an XML declaration), of which the serialiser writes
  \<^verbatim>\<open>P\<close>. And a carriage return in a text is written as it is but read back as a line
  feed: the serialiser writes the title \<^verbatim>\<open>My Book (Chinese)\<close> followed by a carriage
  return as \<^verbatim>\<open>R\<close>, and the parser reads \<^verbatim>\<open>R\<close> as that title followed by a line feed.
\<close>

definition example_container :: element where
  "example_container =
     Element ''{urn:oasis:names:tc:opendocument:xmlns:container}container'' [] None
       [Element ''{urn:oasis:names:tc:opendocument:xmlns:container}rootfiles'' [] None
          [Element CONTAINER_ROOTFILE [(''full-path'', ''OEBPS/content.opf'')] None [] None]
          None]
       None"

definition example_manifest :: element where
  "example_manifest =
     Element OPF_MANIFEST [] None
       [Element OPF_ITEM
          [(''id'', ''ch1''), (''href'', ''chapter1.xhtml''),
           (''media-type'', ''application/xhtml+xml'')] None [] None,
        Element OPF_ITEM
          [(''id'', ''cover''), (''href'', ''cover.jpg''), (''media-type'', ''image/jpeg'')]
          None [] None]
       None"

definition example_opf_with :: "string option \<Rightarrow> string option \<Rightarrow> element" where
  "example_opf_with title lang =
     Element ''{http://www.idpf.org/2007/opf}package'' [] None
       [Element OPF_METADATA [] None
          [Element DC_TITLE [] title [] None, Element DC_LANGUAGE [] lang [] None] None,
        example_manifest]
       None"

definition example_opf :: element where
  "example_opf = example_opf_with (Some ''My Book'') (Some ''en'')"

definition example_opf_zh :: element where
  "example_opf_zh = example_opf_with (Some ''My Book (Chinese)'') (Some ''zh-CN'')"

definition example_container_empty :: element where
  "example_container_empty =
     Element ''{urn:oasis:names:tc:opendocument:xmlns:container}container'' [] None [] None"

definition example_opf_bare :: element where
  "example_opf_bare =
     Element ''{http://www.idpf.org/2007/opf}package'' [] None [example_manifest] None"

definition CR :: char where
  "CR = CHR 0x0D"

definition LF :: char where
  "LF = CHR 0x0A"

definition example_opf_cr :: element where
  "example_opf_cr = example_opf_with (Some (''My Book (Chinese)'' @ [CR])) (Some ''zh-CN'')"

definition example_opf_lf :: element where
  "example_opf_lf = example_opf_with (Some (''My Book (Chinese)'' @ [LF])) (Some ''zh-CN'')"

definition example_opf_lf_cr :: element where
  "example_opf_lf_cr =
     example_opf_with (Some (''My Book (Chinese)'' @ [LF] @ '' (Chinese)'' @ [CR])) (Some ''zh-CN'')"

definition example_opf_lf_lf :: element where
  "example_opf_lf_lf =
     example_opf_with (Some (''My Book (Chinese)'' @ [LF] @ '' (Chinese)'' @ [LF])) (Some ''zh-CN'')"

definition example_parse :: "bytes \<Rightarrow> element option" where
  "example_parse b =
     (if b = ''C'' then Some example_container
      else if b = ''E'' then Some example_container_empty
      else if b = ''O'' then Some example_opf
      else if b = ''Z'' then Some example_opf_zh
      else if b = ''p'' \<or> b = ''P'' then Some example_opf_bare
      else if b = ''R'' then Some example_opf_lf
      else if b = ''S'' then Some example_opf_lf_lf
      else None)"

definition example_write :: "element \<Rightarrow> bytes" where
  "example_write t =
     (if t = example_container then ''C''
      else if t = example_opf then ''O''
      else if t = example_opf_zh then ''Z''
      else if t = example_opf_bare then ''P''
      else if t = example_opf_cr then ''R''
      else if t = example_opf_lf_cr then ''S''
      else ''?'')"

text \<open>
  What the example library reads from an archive file that is still open: a signature
  and the names of the members so far.
\<close>

definition example_partial :: "zip_entry list \<Rightarrow> error + bytes" where
  "example_partial zf = Inr (''PK'' @ concat (map filename zf))"

text \<open>The book unpacked in \<^verbatim>\<open>/book\<close>, and the book as an archive.\<close>

definition example_fs :: filesystem where
  "example_fs =
     \<lparr>fs_root =
        Dir [(''tmp'', Dir []),
             (''book'',
              Dir [(''mimetype'', File ''application/epub+zip''),
                   (''META-INF'', Dir [(''container.xml'', File ''C'')]),
                   (''OEBPS'',
                    Dir [(''content.opf'', File ''O''),
                         (''chapter1.xhtml'', File ''X'')])])],
      cwd = []\<rparr>"

text \<open>A book with a second file named \<^verbatim>\<open>mimetype\<close>, in a subdirectory.\<close>

definition example_fs_nested :: filesystem where
  "example_fs_nested =
     \<lparr>fs_root =
        Dir [(''book'',
              Dir [(''mimetype'', File ''application/epub+zip''),
                   (''META-INF'', Dir [(''container.xml'', File ''C'')]),
                   (''OEBPS'',
                    Dir [(''content.opf'', File ''O''),
                         (''mimetype'', File ''text/plain'')])])],
      cwd = []\<rparr>"

text \<open>A book whose package document has no metadata and is spelled \<^verbatim>\<open>p\<close>.\<close>

definition example_fs_bare :: filesystem where
  "example_fs_bare =
     \<lparr>fs_root =
        Dir [(''book'',
              Dir [(''mimetype'', File ''application/epub+zip''),
                   (''META-INF'', Dir [(''container.xml'', File ''C'')]),
                   (''OEBPS'', Dir [(''content.opf'', File ''p'')])])],
      cwd = []\<rparr>"

definition example_mimetype :: zip_entry where
  "example_mimetype =
     \<lparr>filename = ''mimetype'', compress_type = ZIP_STORED, data = ''application/epub+zip''\<rparr>"

definition example_epub :: "zip_entry list" where
  "example_epub =
     [example_mimetype,
      \<lparr>filename = ''META-INF/container.xml'', compress_type = ZIP_DEFLATED, data = ''C''\<rparr>,
      \<lparr>filename = ''OEBPS/content.opf'', compress_type = ZIP_DEFLATED, data = ''O''\<rparr>,
      \<lparr>filename = ''OEBPS/chapter1.xhtml'', compress_type = ZIP_DEFLATED, data = ''X''\<rparr>]"

section \<open>Properties of element trees\<close>

lemma find_app: "find P (xs @ ys) = (case find P xs of None \<Rightarrow> find P ys | Some x \<Rightarrow> Some x)"
  by (induction xs) auto

lemma find_in_preorder: "find_in t es = find (\<lambda>e. tag e = t) (preorder es)"
  by (induction es rule: preorder.induct) (auto simp: find_app split: option.splits)

lemma find_in_tag: "find_in t es = Some x \<Longrightarrow> tag x = t"
  by (induction es rule: preorder.induct) (auto split: if_splits option.splits)

lemma modify_in_None: "find_in t es = None \<Longrightarrow> modify_in t f es = es"
  by (induction es rule: preorder.induct) (auto split: if_splits option.splits)

lemma find_in_modify_in_same:
  assumes "\<And>e. tag (f e) = tag e"
  shows "find_in t (modify_in t f es) = map_option f (find_in t es)"
proof (induction es rule: preorder.induct)
  case 1
  show ?case by simp
next
  case (2 tg a tx ch ta es)
  obtain tg' a' tx' ch' ta' where fe: "f (Element tg a tx ch ta) = Element tg' a' tx' ch' ta'"
    by (cases "f (Element tg a tx ch ta)")
  with assms[of "Element tg a tx ch ta"] have "tg' = tg" by simp
  with 2 fe show ?case by (auto split: option.splits)
qed

lemma find_in_modify_in_other:
  "t \<noteq> t' \<Longrightarrow>
   map_option text_of (find_in t (modify_in t' (set_text x) es)) = map_option text_of (find_in t es)"
  apply (induction es rule: preorder.induct)
   apply simp
  apply (auto simp: set_text_def split: option.splits)
  done


lemma modify_in_id: "find_in t es = Some x \<Longrightarrow> f x = x \<Longrightarrow> modify_in t f es = es"
  by (induction es rule: preorder.induct) (auto split: if_splits option.splits)

lemma str_in_iff: "str_in a b \<longleftrightarrow> (\<exists>p q. b = p @ a @ q)"
proof (induction b)
  case Nil
  show ?case by auto
next
  case (Cons c cs)
  show ?case
  proof
    assume "str_in a (c # cs)"
    then consider "prefix a (c # cs)" | "str_in a cs" by auto
    then show "\<exists>p q. c # cs = p @ a @ q"
    proof cases
      case 1
      then obtain q where "c # cs = a @ q" by (auto simp: prefix_def)
      then have "c # cs = [] @ a @ q" by simp
      then show ?thesis by blast
    next
      case 2
      with Cons obtain p q where "cs = p @ a @ q" by blast
      then have "c # cs = (c # p) @ a @ q" by simp
      then show ?thesis by blast
    qed
  next
    assume "\<exists>p q. c # cs = p @ a @ q"
    then obtain p q where pq: "c # cs = p @ a @ q" by blast
    show "str_in a (c # cs)"
    proof (cases p)
      case Nil
      with pq have "prefix a (c # cs)" by (auto simp: prefix_def)
      then show ?thesis by simp
    next
      case (Cons c' p')
      with pq have "cs = p' @ a @ q" by simp
      with Cons.IH show ?thesis by auto
    qed
  qed
qed

lemma str_in_appended: "str_in s (tx @ sep @ s)"
  unfolding str_in_iff
proof -
  have "tx @ sep @ s = (tx @ sep) @ s @ []" by simp
  then show "\<exists>p q. tx @ sep @ s = p @ s @ q" by blast
qed

lemma tags_distinct: "DC_LANGUAGE \<noteq> DC_TITLE" "DC_TITLE \<noteq> DC_LANGUAGE"
  by (simp_all add: DC_LANGUAGE_def DC_TITLE_def)

lemma find_desc_modify_desc_same:
  "(\<And>e. tag (f e) = tag e) \<Longrightarrow> find_desc t (modify_desc t f e) = map_option f (find_desc t e)"
  by (simp add: find_desc_def modify_desc_def find_in_modify_in_same)

lemma find_desc_modify_desc_other:
  "t \<noteq> t' \<Longrightarrow>
   map_option text_of (find_desc t (modify_desc t' (set_text x) e)) = map_option text_of (find_desc t e)"
  by (simp add: find_desc_def modify_desc_def find_in_modify_in_other)

lemma tag_modify_desc [simp]: "tag (modify_desc t f e) = tag e"
  by (simp add: modify_desc_def)

lemma tag_set_text [simp]: "tag (set_text x e) = tag e"
  by (simp add: set_text_def)

lemma text_of_set_text [simp]: "text_of (set_text x e) = x"
  by (simp add: set_text_def)

lemma tag_update_language [simp]: "tag (update_language l m) = tag m"
  by (simp add: update_language_def split: option.splits)

lemma tag_update_title [simp]: "tag (update_title s m) = tag m"
  by (simp add: update_title_def split: option.splits)

lemma title_after_language:
  "map_option text_of (find_desc DC_TITLE (update_language l m)) = map_option text_of (find_desc DC_TITLE m)"
  by (simp add: update_language_def find_desc_modify_desc_other tags_distinct split: option.splits)

lemma language_after_title:
  "map_option text_of (find_desc DC_LANGUAGE (update_title s m)) = map_option text_of (find_desc DC_LANGUAGE m)"
  by (simp add: update_title_def find_desc_modify_desc_other tags_distinct split: option.splits)

lemma language_after_language:
  "map_option text_of (find_desc DC_LANGUAGE (update_language l m)) =
     map_option (\<lambda>_. Some l) (find_desc DC_LANGUAGE m)"
  by (simp add: update_language_def find_desc_modify_desc_same option.map_comp comp_def
      split: option.splits)

lemma title_after_title:
  "map_option text_of (find_desc DC_TITLE (update_title s m)) =
     spec_title s (map_option text_of (find_desc DC_TITLE m))"
  by (auto simp: update_title_def spec_title_def find_desc_modify_desc_same split: option.splits)

lemma spec_title_idem: "spec_title s (spec_title s tt) = spec_title s tt"
  using str_in_appended[of s _ "'' ''"]
  by (auto simp: spec_title_def split: option.splits)

lemma find_metadata_edit:
  "find_desc OPF_METADATA (edit_metadata r l s) =
     map_option (\<lambda>m. update_title s (update_language l m)) (find_desc OPF_METADATA r)"
  by (simp add: edit_metadata_def find_desc_modify_desc_same split: option.splits)

lemma title_text_edit: "title_text (edit_metadata r l s) = spec_title s (title_text r)"
  by (auto simp: title_text_def find_metadata_edit title_after_title title_after_language spec_title_def
      split: option.splits)

lemma language_text_edit:
  "language_text (edit_metadata r l s) = map_option (\<lambda>_. Some l) (language_text r)"
  by (auto simp: language_text_def find_metadata_edit language_after_title language_after_language
      option.map_comp comp_def split: option.splits)

lemma edit_title_idem:
  "title_text (edit_metadata (edit_metadata r l s) l s) = title_text (edit_metadata r l s)"
  by (simp add: title_text_edit spec_title_idem)

section \<open>Properties of the file system\<close>

lemma lookup_append:
  "lookup r (xs @ ys) = (case lookup r xs of None \<Rightarrow> None | Some n \<Rightarrow> lookup n ys)"
  by (induction r xs rule: lookup.induct) (auto split: option.splits)

lemma lookup_snoc:
  "lookup r (l @ [c]) = (case lookup r l of Some (Dir es) \<Rightarrow> map_of es c | _ \<Rightarrow> None)"
  by (auto simp: lookup_append split: option.splits node.splits)

lemma lookup_butlast_dir:
  "lookup r l = Some n \<Longrightarrow> l \<noteq> [] \<Longrightarrow> \<exists>es. lookup r (butlast l) = Some (Dir es)"
proof -
  assume a: "lookup r l = Some n" "l \<noteq> []"
  then have "l = butlast l @ [last l]" by simp
  then have "lookup r (butlast l @ [last l]) = Some n" using a by simp
  then show ?thesis by (auto simp: lookup_snoc split: option.splits node.splits)
qed

lemma locate_append:
  "locate r l (cs @ ds) = (case locate r l cs of None \<Rightarrow> None | Some l' \<Rightarrow> locate r l' ds)"
proof (induction cs arbitrary: l)
  case Nil
  show ?case by (cases ds) (auto split: option.splits node.splits)
next
  case (Cons c cs)
  then show ?case by (auto split: option.splits node.splits)
qed

lemma locate_exists: "locate r l cs = Some L \<Longrightarrow> lookup r L \<noteq> None"
  by (induction cs arbitrary: l) (auto split: option.splits node.splits if_splits)

lemma locate_kind:
  assumes "\<And>q. lookup r q \<noteq> None \<Longrightarrow> kind r' q = kind r q"
  shows "locate r l cs = Some L \<Longrightarrow> locate r' l cs = Some L"
proof (induction cs arbitrary: l)
  case Nil
  then have "lookup r l \<noteq> None" by (auto split: option.splits)
  from assms[OF this] this have "lookup r' l \<noteq> None" by (auto simp: kind_def)
  with Nil show ?case by (auto split: option.splits)
next
  case (Cons c cs)
  from Cons.prems obtain es where es: "lookup r l = Some (Dir es)"
    by (auto split: option.splits node.splits)
  then have "kind r' l = Some True" using assms[of l] by (simp add: kind_def)
  then obtain es' where es': "lookup r' l = Some (Dir es')"
    by (auto simp: kind_def elim: is_dir_node.elims)
  show ?case
  proof (cases "c = ''..''")
    case True
    with Cons es es' show ?thesis by simp
  next
    case False
    with Cons.prems es obtain n where n: "map_of es c = Some n" and loc: "locate r (l @ [c]) cs = Some L"
      by (auto split: option.splits)
    from n es have "lookup r (l @ [c]) \<noteq> None" by (simp add: lookup_snoc)
    from assms[OF this] this have "lookup r' (l @ [c]) \<noteq> None" by (auto simp: kind_def)
    with es' obtain n' where "map_of es' c = Some n'" by (auto simp: lookup_snoc)
    with False es' Cons.IH[OF loc] show ?thesis by simp
  qed
qed

lemma map_of_update_entry:
  "map_of (update_entry k v es) k' = (if k' = k then Some v else map_of es k')"
  by (induction es) auto

lemma map_of_snoc_new: "map_of es k = None \<Longrightarrow> map_of (es @ [(k, v)]) k' = (if k' = k then Some v else map_of es k')"
  by (auto simp: map_add_def split: option.splits)

lemma lookup_put_same:
  "(q = [] \<or> (\<exists>es. lookup r (butlast q) = Some (Dir es))) \<Longrightarrow> lookup (put r q n) (q @ p) = lookup n p"
proof (induction r q n rule: put.induct)
  case (1 n new)
  show ?case by simp
next
  case (2 d c cs new)
  then show ?case by (cases cs) (auto split: if_splits)
next
  case (3 es c cs new)
  show ?case
  proof (cases "map_of es c")
    case None
    with 3 show ?thesis
      by (cases cs) (auto simp: map_of_snoc_new split: option.splits if_splits)
  next
    case (Some ch)
    with 3 show ?thesis
      by (cases cs) (auto simp: map_of_update_entry split: option.splits if_splits)
  qed
qed

lemma kind_put:
  assumes "\<And>c. lookup r (q @ [c]) = None"
    and "lookup r q = None \<or> kind r q = Some (is_dir_node n)"
    and "lookup r p \<noteq> None"
  shows "kind (put r q n) p = kind r p"
  using assms
proof (induction r q n arbitrary: p rule: put.induct)
  case (1 r new)
  show ?case
  proof (cases p)
    case Nil
    with 1 show ?thesis by (auto simp: kind_def)
  next
    case (Cons c cs)
    from 1(1)[of c] have "lookup r (c # cs) = None"
      using lookup_append[of r "[c]" cs] by simp
    with 1 Cons show ?thesis by simp
  qed
next
  case (2 d c cs new)
  show ?case by simp
next
  case (3 es c cs new)
  show ?case
  proof (cases p)
    case Nil
    then show ?thesis by (auto simp: kind_def split: option.splits)
  next
    case (Cons c' ps)
    show ?thesis
    proof (cases "map_of es c")
      case None
      with 3 Cons show ?thesis
        by (auto simp: kind_def map_of_snoc_new split: option.splits)
    next
      case (Some ch)
      show ?thesis
      proof (cases "c' = c")
        case True
        have "kind (put ch cs new) ps = kind ch ps"
          using 3 Some Cons True by (intro 3(1)[OF Some]) (auto simp: kind_def)
        with Some Cons True show ?thesis by (simp add: kind_def map_of_update_entry)
      next
        case False
        with Some Cons show ?thesis by (simp add: kind_def map_of_update_entry)
      qed
    qed
  qed
qed

lemma stat_File_parts:
  assumes "stat fs p = Some (File d0)"
  obtains l es where "parts p \<noteq> []" "last (parts p) \<noteq> ''..''"
    "resolve fs (Path (anchor p) (butlast (parts p))) = Some l"
    "lookup (fs_root fs) l = Some (Dir es)" "map_of es (last (parts p)) = Some (File d0)"
    "resolve fs p = Some (l @ [last (parts p)])"
proof -
  define r where "r = fs_root fs"
  define start where "start = start_of fs p"
  from assms obtain L where L: "resolve fs p = Some L" "lookup r L = Some (File d0)"
    by (auto simp: stat_def r_def split: option.splits)
  from L(1) obtain es0 where st: "lookup r start = Some (Dir es0)" and loc: "locate r start (parts p) = Some L"
    by (auto simp: resolve_def r_def start_def split: option.splits node.splits)
  have ne: "parts p \<noteq> []"
  proof
    assume "parts p = []"
    with loc st have "L = start" by simp
    with st L show False by simp
  qed
  define bs where "bs = butlast (parts p)"
  define c where "c = last (parts p)"
  have pp: "parts p = bs @ [c]" using ne by (simp add: bs_def c_def)
  from loc obtain l where l: "locate r start bs = Some l" and lc: "locate r l [c] = Some L"
    unfolding pp by (auto simp: locate_append split: option.splits)
  from lc obtain es where es: "lookup r l = Some (Dir es)"
    by (auto split: option.splits node.splits)
  have cdd: "c \<noteq> ''..''"
  proof
    assume cc: "c = ''..''"
    with lc es have LL: "L = butlast l" by (auto split: option.splits)
    have "\<exists>es'. lookup r (butlast l) = Some (Dir es')"
    proof (cases "l = []")
      case True with es show ?thesis by simp
    next
      case False with es lookup_butlast_dir show ?thesis by blast
    qed
    with LL L(2) show False by auto
  qed
  with lc es obtain n where n: "map_of es c = Some n" "L = l @ [c]"
    by (auto split: option.splits)
  with L(2) es have "n = File d0" by (simp add: lookup_snoc)
  have "resolve fs (Path (anchor p) bs) = Some l"
    using st l by (simp add: resolve_def r_def start_def start_of_def)
  then show ?thesis
    using that[of l es] ne cdd es n \<open>n = File d0\<close> L(1) by (simp add: bs_def c_def r_def)
qed

lemma write_file_existing:
  assumes "read_file fs p = Inr d0"
  shows "\<exists>fs'. write_file fs p d = Inr fs' \<and> read_file fs' p = Inr d \<and> cwd fs' = cwd fs"
proof -
  from assms have st: "stat fs p = Some (File d0)"
    by (auto simp: read_file_def split: option.splits node.splits)
  then obtain l es where h: "parts p \<noteq> []" "last (parts p) \<noteq> ''..''"
    "resolve fs (Path (anchor p) (butlast (parts p))) = Some l"
    "lookup (fs_root fs) l = Some (Dir es)" "map_of es (last (parts p)) = Some (File d0)"
    "resolve fs p = Some (l @ [last (parts p)])"
    by (rule stat_File_parts)
  define r where "r = fs_root fs"
  define L where "L = l @ [last (parts p)]"
  define r' where "r' = put r L (File d)"
  define fs' where "fs' = fs\<lparr>fs_root := r'\<rparr>"
  have w: "write_file fs p d = Inr fs'"
    using h by (simp add: write_file_def fs'_def r'_def r_def L_def)
  have oldL: "lookup r L = Some (File d0)" using h by (simp add: L_def r_def lookup_snoc)
  have kd: "kind r' q = kind r q" if "lookup r q \<noteq> None" for q
    unfolding r'_def
  proof (rule kind_put)
    show "lookup r (L @ [c]) = None" for c using oldL by (simp add: lookup_snoc)
    show "lookup r L = None \<or> kind r L = Some (is_dir_node (File d))" using oldL by (simp add: kind_def)
    show "lookup r q \<noteq> None" by (rule that)
  qed
  define start where "start = start_of fs p"
  from h(6) obtain es0 where st0: "lookup r start = Some (Dir es0)" and loc: "locate r start (parts p) = Some L"
    by (auto simp: resolve_def r_def start_def L_def split: option.splits node.splits)
  from st0 kd[of start] have "kind r' start = Some True" by (simp add: kind_def)
  then obtain es0' where st0': "lookup r' start = Some (Dir es0')"
    by (auto simp: kind_def elim: is_dir_node.elims)
  have loc': "locate r' start (parts p) = Some L"
    by (rule locate_kind[where r = r, OF kd loc])
  have newL: "lookup r' L = Some (File d)"
    using lookup_put_same[of L r "File d" "[]"] h(4) by (simp add: r'_def L_def r_def)
  have "start_of fs' p = start" by (simp add: start_def start_of_def fs'_def)
  then have "read_file fs' p = Inr d"
    using st0' loc' newL by (simp add: read_file_def stat_def resolve_def fs'_def)
  with w show ?thesis by (auto simp: fs'_def)
qed


lemma update_entry_same: "map_of es c = Some ch \<Longrightarrow> update_entry c ch es = es"
  by (induction es) (auto split: if_splits)

lemma put_same: "lookup r l = Some n \<Longrightarrow> put r l n = r"
proof (induction r l n rule: put.induct)
  case (1 n new)
  then show ?case by simp
next
  case (2 d c cs new)
  then show ?case by simp
next
  case (3 es c cs new)
  from "3.prems" obtain ch where ch: "map_of es c = Some ch" and l: "lookup ch cs = Some new"
    by (auto split: option.splits)
  from "3.IH"[OF ch l] ch show ?case by (simp add: update_entry_same)
qed

text \<open>Writing to a file the bytes it holds leaves the file system as it is.\<close>

lemma write_file_same:
  assumes "read_file fs p = Inr d"
  shows "write_file fs p d = Inr fs"
proof -
  from assms have st: "stat fs p = Some (File d)"
    by (auto simp: read_file_def split: option.splits node.splits)
  then obtain l es where h: "parts p \<noteq> []" "last (parts p) \<noteq> ''..''"
    "resolve fs (Path (anchor p) (butlast (parts p))) = Some l"
    "lookup (fs_root fs) l = Some (Dir es)" "map_of es (last (parts p)) = Some (File d)"
    "resolve fs p = Some (l @ [last (parts p)])"
    by (rule stat_File_parts)
  from h(4,5) have "lookup (fs_root fs) (l @ [last (parts p)]) = Some (File d)"
    by (simp add: lookup_snoc)
  then have "put (fs_root fs) (l @ [last (parts p)]) (File d) = fs_root fs"
    by (rule put_same)
  with h show ?thesis by (simp add: write_file_def)
qed
section \<open>The Metadata Editor\<close>

lemma modify_in_cong:
  "find_in t es = Some x \<Longrightarrow> f x = g x \<Longrightarrow> modify_in t f es = modify_in t g es"
  by (induction es rule: preorder.induct) (auto split: if_splits option.splits)

lemma update_language_absent: "find_desc DC_LANGUAGE m = None \<Longrightarrow> update_language l m = m"
  by (simp add: update_language_def)

lemma edit_metadata_no_language:
  assumes "language_text root = None"
  shows "edit_metadata root l title_suffix = edit_metadata root l' title_suffix"
proof (cases "find_desc OPF_METADATA root")
  case None
  then show ?thesis by (simp add: edit_metadata_def)
next
  case (Some m)
  with assms have "find_desc DC_LANGUAGE m = None" by (simp add: language_text_def)
  then have "update_title title_suffix (update_language l m) =
             update_title title_suffix (update_language l' m)"
    by (simp add: update_language_absent)
  with Some have "modify_in OPF_METADATA (\<lambda>m. update_title title_suffix (update_language l m))
        (children root)
      = modify_in OPF_METADATA (\<lambda>m. update_title title_suffix (update_language l' m))
        (children root)"
    by (intro modify_in_cong[where x = m]) (simp_all add: find_desc_def)
  with Some show ?thesis
    by (simp add: edit_metadata_def modify_desc_def)
qed

lemma update_title_unusable:
  assumes "title_suffix = [] \<or> map_option text_of (find_desc DC_TITLE m) \<in> {None, Some None, Some (Some [])}
           \<or> (\<exists>tx. map_option text_of (find_desc DC_TITLE m) = Some (Some tx) \<and> str_in title_suffix tx)"
  shows "update_title title_suffix m = m"
  using assms by (auto simp: update_title_def split: option.splits)

lemma edit_metadata_unchanged:
  assumes "language_text root = None"
    and "title_suffix = [] \<or> title_text root \<in> {None, Some None, Some (Some [])}
           \<or> (\<exists>tx. title_text root = Some (Some tx) \<and> str_in title_suffix tx)"
  shows "edit_metadata root l title_suffix = root"
proof (cases "find_desc OPF_METADATA root")
  case None
  then show ?thesis by (simp add: edit_metadata_def)
next
  case (Some m)
  with assms(1) have "update_language l m = m"
    by (simp add: language_text_def update_language_absent)
  moreover have "update_title title_suffix m = m"
    using assms(2) Some by (intro update_title_unusable) (simp add: title_text_def)
  ultimately have "modify_in OPF_METADATA (\<lambda>m. update_title title_suffix (update_language l m))
      (children root) = children root"
    using Some by (intro modify_in_id[where x = m]) (simp_all add: find_desc_def)
  with Some show ?thesis by (simp add: edit_metadata_def modify_desc_def)
qed

lemma update_metadata_writes:
  assumes "parse_file ET_parse fs (join_str (parse_path extract_dir) opf_path) = Inr root"
  shows "\<exists>fs'. update_metadata ET_parse ET_write fs extract_dir opf_path lang_code title_suffix = Inr fs'
           \<and> read_file fs' (join_str (parse_path extract_dir) opf_path)
               = Inr (ET_write (edit_metadata root lang_code title_suffix))
           \<and> cwd fs' = cwd fs"
proof -
  from assms obtain d0 where "read_file fs (join_str (parse_path extract_dir) opf_path) = Inr d0"
    by (auto simp: parse_file_def split: sum.splits)
  from write_file_existing[OF this] assms show ?thesis
    by (simp add: update_metadata_def)
qed

text \<open>
  C8. Whenever the package document parses, \<^verbatim>\<open>update_metadata\<close> succeeds and leaves
  on disk the serialisation of the edited tree. In that tree the language field of the
  metadata, if there is one, has the supplied code as its text. If there is none, there
  still is none, no error is raised, and the tree written does not depend on the code
  at all: the language edit is skipped.
\<close>

theorem update_metadata_language:
  assumes "parse_file ET_parse fs (join_str (parse_path extract_dir) opf_path) = Inr root"
  shows "\<exists>fs'. update_metadata ET_parse ET_write fs extract_dir opf_path lang_code title_suffix = Inr fs'
           \<and> read_file fs' (join_str (parse_path extract_dir) opf_path)
               = Inr (ET_write (edit_metadata root lang_code title_suffix))
           \<and> language_text (edit_metadata root lang_code title_suffix)
               = map_option (\<lambda>old. Some lang_code) (language_text root)
           \<and> (language_text root = None \<longrightarrow>
                (\<forall>other. edit_metadata root lang_code title_suffix
                          = edit_metadata root other title_suffix))"
proof -
  from update_metadata_writes[OF assms] obtain fs' where w:
    "update_metadata ET_parse ET_write fs extract_dir opf_path lang_code title_suffix = Inr fs'"
    "read_file fs' (join_str (parse_path extract_dir) opf_path)
       = Inr (ET_write (edit_metadata root lang_code title_suffix))"
    by blast
  have l: "language_text (edit_metadata root lang_code title_suffix)
      = map_option (\<lambda>old. Some lang_code) (language_text root)"
    by (rule language_text_edit)
  have n: "language_text root = None \<longrightarrow>
      (\<forall>other. edit_metadata root lang_code title_suffix = edit_metadata root other title_suffix)"
    using edit_metadata_no_language by blast
  show ?thesis
    by (rule exI[where x = fs']) (intro conjI w l n)
qed

lemma example_opf_parses:
  "parse_file example_parse example_fs (join_str (parse_path ''/book'') ''OEBPS/content.opf'')
     = Inr example_opf"
  by code_simp

lemma example_language: "language_text example_opf = Some (Some ''en'')"
  by code_simp

theorem update_metadata_language_witness:
  "parse_file example_parse example_fs (join_str (parse_path ''/book'') ''OEBPS/content.opf'')
     = Inr example_opf
   \<and> (\<exists>fs'. update_metadata example_parse example_write example_fs ''/book'' ''OEBPS/content.opf''
               ''zh-CN'' ''(Chinese)'' = Inr fs'
         \<and> language_text (edit_metadata example_opf ''zh-CN'' ''(Chinese)'') = Some (Some ''zh-CN''))"
proof -
  from update_metadata_language[OF example_opf_parses, where ET_write = example_write
      and lang_code = "''zh-CN''" and title_suffix = "''(Chinese)''"]
  obtain fs' where
    "update_metadata example_parse example_write example_fs ''/book'' ''OEBPS/content.opf''
       ''zh-CN'' ''(Chinese)'' = Inr fs'"
    "language_text (edit_metadata example_opf ''zh-CN'' ''(Chinese)'')
       = map_option (\<lambda>old. Some ''zh-CN'') (language_text example_opf)"
    by blast
  then show ?thesis
    using example_opf_parses by (simp add: example_language)
qed

text \<open>
  C4, as stated, fails for a suffix that the XML library does not hand back as it was
  written. A carriage return in a text is written as it is and read back as a line
  feed. With the suffix \<^verbatim>\<open>(Chinese)\<close> followed by a carriage return, the first call
  on the example book writes the title \<^verbatim>\<open>My Book (Chinese)\<close> with the carriage
  return; the second call reads that title with a line feed at its end, does not find
  the suffix in it, and appends the suffix once more. The title in the file after two
  calls is not the title after one.
\<close>

theorem update_metadata_title_counterexample:
  "edit_metadata example_opf ''zh-CN'' (''(Chinese)'' @ [CR]) = example_opf_cr
   \<and> edit_metadata example_opf_lf ''zh-CN'' (''(Chinese)'' @ [CR]) = example_opf_lf_cr
   \<and> title_text example_opf_lf_cr \<noteq> title_text example_opf_cr
   \<and> (case update_metadata example_parse example_write example_fs ''/book'' ''OEBPS/content.opf''
              ''zh-CN'' (''(Chinese)'' @ [CR]) of
         Inl e \<Rightarrow> False
       | Inr fs1 \<Rightarrow>
           read_file fs1 (join_str (parse_path ''/book'') ''OEBPS/content.opf'') = Inr ''R''
           \<and> (case update_metadata example_parse example_write fs1 ''/book'' ''OEBPS/content.opf''
                      ''zh-CN'' (''(Chinese)'' @ [CR]) of
                 Inl e \<Rightarrow> False
               | Inr fs2 \<Rightarrow>
                   read_file fs2 (join_str (parse_path ''/book'') ''OEBPS/content.opf'') = Inr ''S''
                   \<and> (case (parse_file example_parse fs1
                               (join_str (parse_path ''/book'') ''OEBPS/content.opf''),
                             parse_file example_parse fs2
                               (join_str (parse_path ''/book'') ''OEBPS/content.opf'')) of
                         (Inr once, Inr twice) \<Rightarrow>
                           title_text once = Some (Some (''My Book (Chinese)'' @ [LF]))
                           \<and> title_text twice
                               = Some (Some (''My Book (Chinese)'' @ [LF] @ '' (Chinese)'' @ [LF]))
                           \<and> title_text twice \<noteq> title_text once
                       | _ \<Rightarrow> False)))"
  by (intro conjI; code_simp)

text \<open>
  C4, amended. Let the package document parse, and let the parser read back from the
  file the tree the first call has written (as the library does unless a text of the
  document or the suffix holds a character that XML does not keep, such as a carriage
  return). Then two calls of \<^verbatim>\<open>update_metadata\<close> with the same arguments both
  succeed, the second writes a tree with the same title text as the first, and that
  title is the one the specification describes: the old title, with a space and the
  suffix appended only when the suffix is not empty, the title text is not empty and
  the suffix does not yet occur in it.
\<close>

theorem update_metadata_title_idempotent:
  assumes "parse_file ET_parse fs (join_str (parse_path extract_dir) opf_path) = Inr root"
    and "ET_parse (ET_write (edit_metadata root lang_code title_suffix))
           = Some (edit_metadata root lang_code title_suffix)"
  shows "\<exists>fs1 fs2.
           update_metadata ET_parse ET_write fs extract_dir opf_path lang_code title_suffix = Inr fs1
         \<and> read_file fs1 (join_str (parse_path extract_dir) opf_path)
             = Inr (ET_write (edit_metadata root lang_code title_suffix))
         \<and> update_metadata ET_parse ET_write fs1 extract_dir opf_path lang_code title_suffix = Inr fs2
         \<and> read_file fs2 (join_str (parse_path extract_dir) opf_path)
             = Inr (ET_write (edit_metadata (edit_metadata root lang_code title_suffix)
                                lang_code title_suffix))
         \<and> title_text (edit_metadata (edit_metadata root lang_code title_suffix)
                          lang_code title_suffix)
             = title_text (edit_metadata root lang_code title_suffix)
         \<and> title_text (edit_metadata root lang_code title_suffix)
             = spec_title title_suffix (title_text root)"
proof -
  let ?opf = "join_str (parse_path extract_dir) opf_path"
  let ?t1 = "edit_metadata root lang_code title_suffix"
  from update_metadata_writes[OF assms(1)] obtain fs1 where fs1:
    "update_metadata ET_parse ET_write fs extract_dir opf_path lang_code title_suffix = Inr fs1"
    "read_file fs1 ?opf = Inr (ET_write ?t1)"
    by blast
  from fs1(2) assms(2) have "parse_file ET_parse fs1 ?opf = Inr ?t1"
    by (simp add: parse_file_def)
  from update_metadata_writes[OF this] obtain fs2 where fs2:
    "update_metadata ET_parse ET_write fs1 extract_dir opf_path lang_code title_suffix = Inr fs2"
    "read_file fs2 ?opf = Inr (ET_write (edit_metadata ?t1 lang_code title_suffix))"
    by blast
  show ?thesis
    by (rule exI[where x = fs1], rule exI[where x = fs2])
      (intro conjI fs1 fs2 edit_title_idem title_text_edit)
qed

lemma example_edit: "edit_metadata example_opf ''zh-CN'' ''(Chinese)'' = example_opf_zh"
  by code_simp

lemma example_readback: "example_parse (example_write example_opf_zh) = Some example_opf_zh"
  by code_simp

lemma example_titles:
  "title_text example_opf = Some (Some ''My Book'')"
  "title_text example_opf_zh = Some (Some ''My Book (Chinese)'')"
  "edit_metadata example_opf_zh ''zh-CN'' ''(Chinese)'' = example_opf_zh"
  by code_simp+

theorem update_metadata_title_idempotent_witness:
  "parse_file example_parse example_fs (join_str (parse_path ''/book'') ''OEBPS/content.opf'')
     = Inr example_opf
   \<and> example_parse (example_write (edit_metadata example_opf ''zh-CN'' ''(Chinese)''))
       = Some (edit_metadata example_opf ''zh-CN'' ''(Chinese)'')
   \<and> (\<exists>fs1 fs2.
         update_metadata example_parse example_write example_fs ''/book'' ''OEBPS/content.opf''
           ''zh-CN'' ''(Chinese)'' = Inr fs1
       \<and> update_metadata example_parse example_write fs1 ''/book'' ''OEBPS/content.opf''
           ''zh-CN'' ''(Chinese)'' = Inr fs2
       \<and> read_file fs2 (join_str (parse_path ''/book'') ''OEBPS/content.opf'') = Inr ''Z'')
   \<and> title_text (edit_metadata example_opf ''zh-CN'' ''(Chinese)'')
       = Some (Some ''My Book (Chinese)'')
   \<and> title_text (edit_metadata (edit_metadata example_opf ''zh-CN'' ''(Chinese)'')
        ''zh-CN'' ''(Chinese)'') = Some (Some ''My Book (Chinese)'')"
proof -
  have rb: "example_parse (example_write (edit_metadata example_opf ''zh-CN'' ''(Chinese)''))
       = Some (edit_metadata example_opf ''zh-CN'' ''(Chinese)'')"
    by (simp add: example_edit example_readback)
  have w: "example_write example_opf_zh = ''Z''" by code_simp
  from update_metadata_title_idempotent[where ET_parse = example_parse
      and ET_write = example_write and root = example_opf and lang_code = "''zh-CN''"
      and title_suffix = "''(Chinese)''", OF example_opf_parses rb]
  obtain fs1 fs2 where
    "update_metadata example_parse example_write example_fs ''/book'' ''OEBPS/content.opf''
       ''zh-CN'' ''(Chinese)'' = Inr fs1"
    "update_metadata example_parse example_write fs1 ''/book'' ''OEBPS/content.opf''
       ''zh-CN'' ''(Chinese)'' = Inr fs2"
    "read_file fs2 (join_str (parse_path ''/book'') ''OEBPS/content.opf'')
       = Inr (example_write (edit_metadata (edit_metadata example_opf ''zh-CN'' ''(Chinese)'')
                ''zh-CN'' ''(Chinese)''))"
    by blast
  then have "\<exists>fs1 fs2.
         update_metadata example_parse example_write example_fs ''/book'' ''OEBPS/content.opf''
           ''zh-CN'' ''(Chinese)'' = Inr fs1
       \<and> update_metadata example_parse example_write fs1 ''/book'' ''OEBPS/content.opf''
           ''zh-CN'' ''(Chinese)'' = Inr fs2
       \<and> read_file fs2 (join_str (parse_path ''/book'') ''OEBPS/content.opf'') = Inr ''Z''"
    by (simp add: example_edit example_titles w)
  then show ?thesis
    using example_opf_parses rb by (simp add: example_edit example_titles)
qed

text \<open>
  C3, as stated, fails for a document without metadata: \<^verbatim>\<open>update_metadata\<close> writes the
  package document back in every case, and the serialiser chooses the spelling. The
  package document of the third example book has no metadata element and is spelled
  \<^verbatim>\<open>p\<close>; the \<^verbatim>\<open>update-meta\<close> command with the language \<^verbatim>\<open>zh-CN\<close> and the suffix
  \<^verbatim>\<open>(Chinese)\<close> leaves the same tree in the file, spelled \<^verbatim>\<open>P\<close>. The bytes on disk
  have changed.
\<close>

theorem update_metadata_noop_counterexample:
  "read_file example_fs_bare (join_str (parse_path ''/book'') ''OEBPS/content.opf'') = Inr ''p''
   \<and> example_parse ''p'' = Some example_opf_bare
   \<and> find_desc OPF_METADATA example_opf_bare = None
   \<and> (case main_update_meta example_parse example_write example_fs_bare ''/book''
              ''OEBPS/content.opf'' (Some ''zh-CN'') (Some ''(Chinese)'') of
         Inl e \<Rightarrow> False
       | Inr fs' \<Rightarrow>
           read_file fs' (join_str (parse_path ''/book'') ''OEBPS/content.opf'') = Inr ''P''
           \<and> fs' \<noteq> example_fs_bare)"
  by (intro conjI; code_simp)

text \<open>
  C3, amended. The \<^verbatim>\<open>update-meta\<close> command leaves the file system as it is, byte for
  byte, when it is given neither a language code nor a usable title suffix, and indeed
  whenever it is given no language code (or an empty one), whatever the suffix. When
  the metadata element is absent from the document, \<^verbatim>\<open>update_metadata\<close> leaves the
  tree of the document as it is and writes its serialisation to the file; the file
  system is unchanged, byte for byte, whenever that serialisation is the byte string
  that was read.
\<close>

theorem update_metadata_unchanged:
  "main_update_meta ET_parse ET_write fs extract_dir opf_path None title_opt = Inr fs
   \<and> main_update_meta ET_parse ET_write fs extract_dir opf_path (Some []) title_opt = Inr fs
   \<and> (read_file fs (join_str (parse_path extract_dir) opf_path) = Inr b
        \<longrightarrow> ET_parse b = Some root
        \<longrightarrow> find_desc OPF_METADATA root = None
        \<longrightarrow> edit_metadata root lang_code title_suffix = root
             \<and> (\<exists>fs'. update_metadata ET_parse ET_write fs extract_dir opf_path
                         lang_code title_suffix = Inr fs'
                     \<and> read_file fs' (join_str (parse_path extract_dir) opf_path)
                          = Inr (ET_write root)
                     \<and> (ET_write root = b \<longrightarrow> fs' = fs)))"
proof (intro conjI impI)
  show "main_update_meta ET_parse ET_write fs extract_dir opf_path None title_opt = Inr fs"
    by (simp add: main_update_meta_def)
  show "main_update_meta ET_parse ET_write fs extract_dir opf_path (Some []) title_opt = Inr fs"
    by (simp add: main_update_meta_def)
next
  let ?opf = "join_str (parse_path extract_dir) opf_path"
  assume r: "read_file fs ?opf = Inr b" and pb: "ET_parse b = Some root"
    and c: "find_desc OPF_METADATA root = None"
  from r pb have p: "parse_file ET_parse fs ?opf = Inr root"
    by (simp add: parse_file_def)
  from c show same: "edit_metadata root lang_code title_suffix = root"
    by (simp add: edit_metadata_def)
  from update_metadata_writes[OF p, of ET_write lang_code title_suffix]
  obtain fs' where fs':
    "update_metadata ET_parse ET_write fs extract_dir opf_path lang_code title_suffix = Inr fs'"
    "read_file fs' ?opf = Inr (ET_write root)"
    unfolding same by blast
  have "fs' = fs" if "ET_write root = b"
  proof -
    from r that have "write_file fs ?opf (ET_write root) = Inr fs"
      by (intro write_file_same) simp
    with p same have "update_metadata ET_parse ET_write fs extract_dir opf_path
        lang_code title_suffix = Inr fs"
      by (simp add: update_metadata_def)
    with fs'(1) show ?thesis by simp
  qed
  with fs' show "\<exists>fs'. update_metadata ET_parse ET_write fs extract_dir opf_path
                         lang_code title_suffix = Inr fs'
                     \<and> read_file fs' ?opf = Inr (ET_write root)
                     \<and> (ET_write root = b \<longrightarrow> fs' = fs)"
    by blast
qed

lemma example_container_read:
  "read_file example_fs (join_str (parse_path ''/book'') ''META-INF/container.xml'') = Inr ''C''"
  by code_simp

lemma example_container_codec:
  "example_parse ''C'' = Some example_container"
  "example_write example_container = ''C''"
  by code_simp+

lemma example_container_no_metadata: "find_desc OPF_METADATA example_container = None"
  by code_simp

theorem update_metadata_unchanged_witness:
  "read_file example_fs (join_str (parse_path ''/book'') ''META-INF/container.xml'') = Inr ''C''
   \<and> example_parse ''C'' = Some example_container
   \<and> find_desc OPF_METADATA example_container = None
   \<and> example_write example_container = ''C''
   \<and> edit_metadata example_container ''zh-CN'' ''(Chinese)'' = example_container
   \<and> update_metadata example_parse example_write example_fs ''/book''
        ''META-INF/container.xml'' ''zh-CN'' ''(Chinese)'' = Inr example_fs
   \<and> main_update_meta example_parse example_write example_fs ''/book''
        ''OEBPS/content.opf'' None (Some ''(Chinese)'') = Inr example_fs"
  using update_metadata_unchanged[where ET_parse = example_parse and ET_write = example_write
      and fs = example_fs and extract_dir = "''/book''" and opf_path = "''META-INF/container.xml''"
      and b = "''C''" and root = example_container and lang_code = "''zh-CN''"
      and title_suffix = "''(Chinese)''" and title_opt = "Some ''(Chinese)''"]
    example_container_read example_container_codec example_container_no_metadata
  by (auto simp: main_update_meta_def)

section \<open>Properties of paths\<close>

lemma split_on_not_Nil [simp]: "split_on c s \<noteq> []"
  by (induction s) (auto split: list.splits)

lemma split_on_no_sep: "x \<in> set (split_on c s) \<Longrightarrow> c \<notin> set x"
  by (induction s arbitrary: x) (auto split: list.splits if_splits)

lemma split_on_single: "c \<notin> set x \<Longrightarrow> split_on c x = [x]"
  by (induction x) auto

lemma split_on_append: "c \<notin> set x \<Longrightarrow> split_on c (x @ c # s) = x # split_on c s"
  by (induction x) auto

lemma split_on_join:
  "xs \<noteq> [] \<Longrightarrow> \<forall>x \<in> set xs. c \<notin> set x \<Longrightarrow> split_on c (join_with [c] xs) = xs"
proof (induction xs)
  case Nil
  then show ?case by simp
next
  case (Cons x xs)
  show ?case
  proof (cases xs)
    case Nil
    with Cons.prems show ?thesis by (simp add: split_on_single)
  next
    case (Cons y ys)
    with Cons.IH Cons.prems have "split_on c (join_with [c] xs) = xs" by simp
    with Cons Cons.prems show ?thesis by (simp add: split_on_append)
  qed
qed

lemma valid_name_parse: "valid_name n \<Longrightarrow> parse_path n = Path [] [n]"
  by (cases n) (auto simp: valid_name_def parse_path_def splitroot_def split_on_single)

lemma wf_parse_path: "wf_path (parse_path s)"
  by (auto simp: wf_path_def parse_path_def splitroot_def valid_name_def Let_def
      dest: split_on_no_sep)

lemma wf_joinpath: "wf_path p \<Longrightarrow> wf_path q \<Longrightarrow> wf_path (joinpath p q)"
  by (auto simp: wf_path_def joinpath_def)

lemma wf_join_str: "wf_path p \<Longrightarrow> wf_path (join_str p s)"
  by (simp add: join_str_def wf_joinpath wf_parse_path)

lemma join_with_valid_hd:
  "xs \<noteq> [] \<Longrightarrow> \<forall>x \<in> set xs. valid_name x \<Longrightarrow>
   join_with ''/'' xs \<noteq> [] \<and> hd (join_with ''/'' xs) \<noteq> CHR ''/''"
proof (cases xs)
  case Nil
  assume "xs \<noteq> []"
  with Nil show ?thesis by simp
next
  case (Cons x ys)
  assume "\<forall>x \<in> set xs. valid_name x"
  with Cons have "x \<noteq> []" "hd x \<noteq> CHR ''/''"
    by (auto simp: valid_name_def dest: hd_in_set)
  with Cons show ?thesis by (cases ys) auto
qed

lemma parts_roundtrip:
  assumes "\<forall>x \<in> set xs. valid_name x"
  shows "filter (\<lambda>x. x \<noteq> [] \<and> x \<noteq> ''.'') (split_on CHR ''/'' (join_with ''/'' xs)) = xs"
proof (cases xs)
  case Nil
  then show ?thesis by simp
next
  case (Cons y ys)
  with assms have "split_on CHR ''/'' (join_with ''/'' xs) = xs"
    by (intro split_on_join) (auto simp: valid_name_def)
  moreover have "filter (\<lambda>x. x \<noteq> [] \<and> x \<noteq> ''.'') xs = xs"
    using assms by (auto simp: valid_name_def intro: filter_True)
  ultimately show ?thesis by simp
qed

lemma splitroot_rel:
  "s = [] \<or> hd s \<noteq> CHR ''/'' \<Longrightarrow> splitroot s = ([], s)"
  by (auto simp: splitroot_def Let_def)

lemma dropWhile_slash: "j = [] \<or> hd j \<noteq> CHR ''/'' \<Longrightarrow> dropWhile (\<lambda>c. c = CHR ''/'') j = j"
  by (cases j) auto

lemma splitroot_one: "j = [] \<or> hd j \<noteq> CHR ''/'' \<Longrightarrow> splitroot (''/'' @ j) = (''/'', j)"
  by (simp add: splitroot_def Let_def dropWhile_slash)

lemma splitroot_two: "j = [] \<or> hd j \<noteq> CHR ''/'' \<Longrightarrow> splitroot (''//'' @ j) = (''//'', j)"
  by (simp add: splitroot_def Let_def dropWhile_slash)

text \<open>\<^verbatim>\<open>Path(str(p)) == p\<close>\<close>

lemma parse_str_path:
  assumes "wf_path p"
  shows "parse_path (str_path p) = p"
proof -
  obtain a xs where p: "p = Path a xs" by (cases p)
  from assms p have v: "\<forall>x \<in> set xs. valid_name x" and a: "a = [] \<or> a = ''/'' \<or> a = ''//''"
    by (auto simp: wf_path_def)
  let ?j = "join_with ''/'' xs"
  have j: "?j = [] \<or> hd ?j \<noteq> CHR ''/''"
    using join_with_valid_hd[of xs] v by (cases xs) auto
  have f: "filter (\<lambda>x. x \<noteq> [] \<and> x \<noteq> ''.'') (split_on CHR ''/'' ?j) = xs"
    using v by (rule parts_roundtrip)
  from a show ?thesis
  proof (elim disjE)
    assume e: "a = []"
    show ?thesis
    proof (cases xs)
      case Nil
      with e p show ?thesis by (simp add: str_path_def parse_path_def splitroot_def)
    next
      case (Cons y ys)
      with e p f j show ?thesis by (simp add: str_path_def parse_path_def splitroot_rel)
    qed
  next
    assume e: "a = ''/''"
    have "splitroot (''/'' @ ?j) = (''/'', ?j)" using j by (rule splitroot_one)
    with e p f show ?thesis by (simp add: str_path_def parse_path_def)
  next
    assume e: "a = ''//''"
    have "splitroot (''//'' @ ?j) = (''//'', ?j)" using j by (rule splitroot_two)
    with e p f show ?thesis by (simp add: str_path_def parse_path_def)
  qed
qed

lemma str_path_not_Nil: "wf_path p \<Longrightarrow> str_path p \<noteq> []"
  using join_with_valid_hd[of "parts p"]
  by (cases "parts p") (auto simp: str_path_def wf_path_def)

section \<open>The Manifest Reader\<close>

lemma list_items_eq:
  "list_items fs opf_dir items acc
     = acc @ map (content_entry opf_dir) (filter (content_item fs opf_dir) items)"
  by (induction items arbitrary: acc) (simp_all add: content_item_def content_entry_def Let_def)

lemma get_items_eq:
  "get_items fs opf_dir items acc
     = acc @ map (\<lambda>item. str_path (join_str opf_dir (get_attr item ''href'' [])))
               (filter (content_item fs opf_dir) items)"
  by (induction items arbitrary: acc) (simp_all add: content_item_def Let_def)

lemma path_content_entry:
  "path (content_entry opf_dir item) = str_path (join_str opf_dir (get_attr item ''href'' []))"
  by (simp add: content_entry_def)

lemma extract_epub_info:
  assumes "extract_epub ET_parse fs epub output_dir = Inr (info, fs')"
  obtains opf where
    "info = \<lparr>info_extract_dir = str_path (parse_path output_dir), info_opf_path = opf,
             info_opf_full_path = str_path (join_str (parse_path output_dir) opf)\<rparr>"
  using assms
  by (auto simp: extract_epub_def Let_def split: sum.splits if_splits option.splits)

text \<open>
  C5. Let \<^verbatim>\<open>list_content_files\<close> have made its temporary directory and extracted the
  archive into it, and let the package document parse. Then it returns exactly the
  entries of the specification: one for each manifest item, in document order, whose
  media type is \<^verbatim>\<open>application/xhtml+xml\<close> or \<^verbatim>\<open>text/html\<close> and whose href exists
  below the directory of the package document; no other item is reported, and without
  a manifest element the result is the empty list, not an error.
\<close>

theorem list_content_files_entries:
  assumes "mkdir fs (parse_path temp_dir) = Inr fs1"
    and "extract_epub ET_parse fs1 epub temp_dir = Inr (info, fs2)"
    and "parse_file ET_parse fs2 (parse_path (info_opf_full_path info)) = Inr root"
  shows "list_content_files ET_parse fs epub temp_dir
           = Inr (spec_content_entries fs2 (parent (parse_path (info_opf_full_path info))) root)
         \<and> (find_desc OPF_MANIFEST root = None \<longrightarrow>
              list_content_files ET_parse fs epub temp_dir = Inr [])"
  using assms
  by (simp add: list_content_files_def spec_content_entries_def list_items_eq Let_def
      split: option.splits)

lemma example_mkdir_tmp:
  "mkdir example_fs (parse_path ''/tmp/tmpab12'')
     = Inr (projr (mkdir example_fs (parse_path ''/tmp/tmpab12'')))"
  by code_simp

lemma example_extract_tmp:
  "extract_epub example_parse (projr (mkdir example_fs (parse_path ''/tmp/tmpab12'')))
       example_epub ''/tmp/tmpab12''
     = Inr (\<lparr>info_extract_dir = ''/tmp/tmpab12'', info_opf_path = ''OEBPS/content.opf'',
              info_opf_full_path = ''/tmp/tmpab12/OEBPS/content.opf''\<rparr>,
            snd (projr (extract_epub example_parse
                   (projr (mkdir example_fs (parse_path ''/tmp/tmpab12'')))
                   example_epub ''/tmp/tmpab12'')))"
  by code_simp

lemma example_parse_tmp:
  "parse_file example_parse
     (snd (projr (extract_epub example_parse
                   (projr (mkdir example_fs (parse_path ''/tmp/tmpab12'')))
                   example_epub ''/tmp/tmpab12'')))
     (parse_path ''/tmp/tmpab12/OEBPS/content.opf'')
   = Inr example_opf"
  by code_simp

lemma example_entries_tmp:
  "spec_content_entries
     (snd (projr (extract_epub example_parse
                   (projr (mkdir example_fs (parse_path ''/tmp/tmpab12'')))
                   example_epub ''/tmp/tmpab12'')))
     (parent (parse_path ''/tmp/tmpab12/OEBPS/content.opf'')) example_opf
   = [\<lparr>item_id = ''ch1'', href = ''chapter1.xhtml'',
        path = ''/tmp/tmpab12/OEBPS/chapter1.xhtml'',
        media_type = ''application/xhtml+xml''\<rparr>]"
  by code_simp

theorem list_content_files_entries_witness:
  "\<exists>fs1 info fs2.
     mkdir example_fs (parse_path ''/tmp/tmpab12'') = Inr fs1
   \<and> extract_epub example_parse fs1 example_epub ''/tmp/tmpab12'' = Inr (info, fs2)
   \<and> parse_file example_parse fs2 (parse_path (info_opf_full_path info)) = Inr example_opf
   \<and> list_content_files example_parse example_fs example_epub ''/tmp/tmpab12''
       = Inr [\<lparr>item_id = ''ch1'', href = ''chapter1.xhtml'',
                path = ''/tmp/tmpab12/OEBPS/chapter1.xhtml'',
                media_type = ''application/xhtml+xml''\<rparr>]"
proof -
  have p: "parse_file example_parse
     (snd (projr (extract_epub example_parse
                   (projr (mkdir example_fs (parse_path ''/tmp/tmpab12'')))
                   example_epub ''/tmp/tmpab12'')))
     (parse_path (info_opf_full_path
        \<lparr>info_extract_dir = ''/tmp/tmpab12'', info_opf_path = ''OEBPS/content.opf'',
          info_opf_full_path = ''/tmp/tmpab12/OEBPS/content.opf''\<rparr>))
   = Inr example_opf"
    using example_parse_tmp by simp
  from list_content_files_entries[OF example_mkdir_tmp example_extract_tmp p]
  have "list_content_files example_parse example_fs example_epub ''/tmp/tmpab12''
       = Inr [\<lparr>item_id = ''ch1'', href = ''chapter1.xhtml'',
                path = ''/tmp/tmpab12/OEBPS/chapter1.xhtml'',
                media_type = ''application/xhtml+xml''\<rparr>]"
    using example_entries_tmp by simp
  with example_mkdir_tmp example_extract_tmp p show ?thesis
    by (intro exI conjI)
qed

text \<open>
  Run on one and the same directory and file system, the two readers return the same
  paths: once \<^verbatim>\<open>list_content_files\<close> has extracted the archive into its temporary
  directory, \<^verbatim>\<open>get_content_files\<close> on that directory, before it is removed, returns
  the paths of the entries \<^verbatim>\<open>list_content_files\<close> returns, or fails with the same
  error.
\<close>

lemma content_files_same_directory:
  assumes "mkdir fs (parse_path temp_dir) = Inr fs1"
    and "extract_epub ET_parse fs1 epub temp_dir = Inr (info, fs2)"
  shows "map_sum id (map path) (list_content_files ET_parse fs epub temp_dir)
           = get_content_files ET_parse fs2 (info_extract_dir info) (info_opf_path info)"
proof -
  let ?op = "parse_path temp_dir"
  from assms(2) obtain opf where info:
    "info = \<lparr>info_extract_dir = str_path ?op, info_opf_path = opf,
             info_opf_full_path = str_path (join_str ?op opf)\<rparr>"
    by (rule extract_epub_info)
  have a: "parse_path (info_opf_full_path info) = join_str ?op opf"
    by (simp add: info parse_str_path wf_join_str wf_parse_path)
  have b: "join_str (parse_path (info_extract_dir info)) (info_opf_path info) = join_str ?op opf"
    by (simp add: info parse_str_path wf_parse_path)
  show ?thesis
    using assms
    by (simp add: list_content_files_def get_content_files_def a b list_items_eq get_items_eq
        Let_def path_content_entry comp_def split: sum.splits option.splits)
qed

section \<open>The Archive Extractor\<close>

lemma parse_file_exists: "parse_file ET_parse fs p = Inr root \<Longrightarrow> path_exists fs p"
  by (auto simp: parse_file_def read_file_def path_exists_def split: sum.splits option.splits)

lemma anchor_join_str:
  "anchor (join_str p s) \<noteq> [] \<longleftrightarrow> anchor p \<noteq> [] \<or> anchor (parse_path s) \<noteq> []"
  by (simp add: join_str_def joinpath_def)

text \<open>
  C6, as stated, fails in its last part: the third result is the descriptor's path
  joined onto the target directory as it was given, and nothing makes it absolute.
  Extracting the example book into the relative directory \<^verbatim>\<open>work\<close> returns
  \<^verbatim>\<open>work/OEBPS/content.opf\<close>.
\<close>

theorem extract_epub_absolute_counterexample:
  "(case extract_epub example_parse example_fs example_epub ''work'' of
      Inl e \<Rightarrow> False
    | Inr (info, fs') \<Rightarrow>
        info_opf_full_path info = ''work/OEBPS/content.opf''
        \<and> anchor (parse_path (info_opf_full_path info)) = [])"
  by code_simp

text \<open>
  C6, amended. Let the target directory be made and the archive expanded. If then
  \<^verbatim>\<open>META-INF/container.xml\<close> does not exist below the target directory,
  \<^verbatim>\<open>extract_epub\<close> raises \<^verbatim>\<open>FileNotFoundError\<close>; if it parses and holds no rootfile
  element, \<^verbatim>\<open>extract_epub\<close> raises \<^verbatim>\<open>ValueError\<close> (the two failures the specification
  calls \<^verbatim>\<open>FormatError\<close>). On success the result holds the target directory path, the
  \<^verbatim>\<open>full-path\<close> attribute of the first rootfile of the descriptor as it stands there,
  and that path joined onto the target directory path; the joined path is absolute
  exactly when the target directory path or the descriptor's path is.
\<close>

theorem extract_epub_result:
  "(mkdir_parents fs (parse_path output_dir) = Inr fs1 \<longrightarrow>
    extractall fs1 (parse_path output_dir) epub = Inr fs2 \<longrightarrow>
      (\<not> path_exists fs2 (join_str (join_str (parse_path output_dir) ''META-INF'') ''container.xml'')
         \<longrightarrow> extract_epub ET_parse fs epub output_dir
               = Inl (FileNotFoundError ''Invalid EPUB: container.xml not found''))
    \<and> (parse_file ET_parse fs2
           (join_str (join_str (parse_path output_dir) ''META-INF'') ''container.xml'') = Inr root
         \<longrightarrow> find_desc CONTAINER_ROOTFILE root = None
         \<longrightarrow> extract_epub ET_parse fs epub output_dir
               = Inl (ValueError ''No rootfile in container.xml'')))
   \<and> (extract_epub ET_parse fs epub output_dir = Inr (info, fs') \<longrightarrow>
        info_extract_dir info = str_path (parse_path output_dir)
      \<and> (\<exists>croot rootfile.
            parse_file ET_parse fs'
              (join_str (join_str (parse_path output_dir) ''META-INF'') ''container.xml'')
              = Inr croot
          \<and> find_desc CONTAINER_ROOTFILE croot = Some rootfile
          \<and> map_of (attrib rootfile) ''full-path'' = Some (info_opf_path info))
      \<and> info_opf_full_path info
          = str_path (join_str (parse_path output_dir) (info_opf_path info))
      \<and> (anchor (parse_path (info_opf_full_path info)) \<noteq> []
           \<longleftrightarrow> anchor (parse_path output_dir) \<noteq> []
               \<or> anchor (parse_path (info_opf_path info)) \<noteq> []))"
proof (intro conjI impI)
  assume "mkdir_parents fs (parse_path output_dir) = Inr fs1"
    and "extractall fs1 (parse_path output_dir) epub = Inr fs2"
    and "\<not> path_exists fs2 (join_str (join_str (parse_path output_dir) ''META-INF'') ''container.xml'')"
  then show "extract_epub ET_parse fs epub output_dir
               = Inl (FileNotFoundError ''Invalid EPUB: container.xml not found'')"
    by (simp add: extract_epub_def)
next
  assume m: "mkdir_parents fs (parse_path output_dir) = Inr fs1"
    and x: "extractall fs1 (parse_path output_dir) epub = Inr fs2"
    and p: "parse_file ET_parse fs2
           (join_str (join_str (parse_path output_dir) ''META-INF'') ''container.xml'') = Inr root"
    and n: "find_desc CONTAINER_ROOTFILE root = None"
  from p have "path_exists fs2
      (join_str (join_str (parse_path output_dir) ''META-INF'') ''container.xml'')"
    by (rule parse_file_exists)
  with m x p n show "extract_epub ET_parse fs epub output_dir
               = Inl (ValueError ''No rootfile in container.xml'')"
    by (simp add: extract_epub_def)
next
  assume s: "extract_epub ET_parse fs epub output_dir = Inr (info, fs')"
  then show "info_extract_dir info = str_path (parse_path output_dir)"
    by (auto elim: extract_epub_info)
  from s show "\<exists>croot rootfile.
            parse_file ET_parse fs'
              (join_str (join_str (parse_path output_dir) ''META-INF'') ''container.xml'')
              = Inr croot
          \<and> find_desc CONTAINER_ROOTFILE croot = Some rootfile
          \<and> map_of (attrib rootfile) ''full-path'' = Some (info_opf_path info)"
    by (auto simp: extract_epub_def Let_def split: sum.splits if_splits option.splits)
  from s show f: "info_opf_full_path info
          = str_path (join_str (parse_path output_dir) (info_opf_path info))"
    by (auto elim: extract_epub_info)
  show "anchor (parse_path (info_opf_full_path info)) \<noteq> []
           \<longleftrightarrow> anchor (parse_path output_dir) \<noteq> []
               \<or> anchor (parse_path (info_opf_path info)) \<noteq> []"
    unfolding f by (simp add: parse_str_path wf_join_str wf_parse_path anchor_join_str)
qed

lemma example_bare:
  "mkdir_parents example_fs (parse_path ''/tmp/x'')
     = Inr (projr (mkdir_parents example_fs (parse_path ''/tmp/x'')))"
  "extractall (projr (mkdir_parents example_fs (parse_path ''/tmp/x''))) (parse_path ''/tmp/x'')
       [example_mimetype]
     = Inr (projr (extractall (projr (mkdir_parents example_fs (parse_path ''/tmp/x'')))
                     (parse_path ''/tmp/x'') [example_mimetype]))"
  "\<not> path_exists
       (projr (extractall (projr (mkdir_parents example_fs (parse_path ''/tmp/x'')))
                 (parse_path ''/tmp/x'') [example_mimetype]))
       (join_str (join_str (parse_path ''/tmp/x'') ''META-INF'') ''container.xml'')"
  by code_simp+

lemma example_no_rootfile:
  "extractall (projr (mkdir_parents example_fs (parse_path ''/tmp/x''))) (parse_path ''/tmp/x'')
       [\<lparr>filename = ''META-INF/container.xml'', compress_type = ZIP_DEFLATED, data = ''E''\<rparr>]
     = Inr (projr (extractall (projr (mkdir_parents example_fs (parse_path ''/tmp/x'')))
                     (parse_path ''/tmp/x'')
                     [\<lparr>filename = ''META-INF/container.xml'', compress_type = ZIP_DEFLATED,
                        data = ''E''\<rparr>]))"
  "parse_file example_parse
       (projr (extractall (projr (mkdir_parents example_fs (parse_path ''/tmp/x'')))
                 (parse_path ''/tmp/x'')
                 [\<lparr>filename = ''META-INF/container.xml'', compress_type = ZIP_DEFLATED,
                    data = ''E''\<rparr>]))
       (join_str (join_str (parse_path ''/tmp/x'') ''META-INF'') ''container.xml'')
     = Inr example_container_empty"
  "find_desc CONTAINER_ROOTFILE example_container_empty = None"
  by code_simp+

lemma example_extract_x:
  "extract_epub example_parse example_fs example_epub ''/tmp/x''
     = Inr (\<lparr>info_extract_dir = ''/tmp/x'', info_opf_path = ''OEBPS/content.opf'',
              info_opf_full_path = ''/tmp/x/OEBPS/content.opf''\<rparr>,
            snd (projr (extract_epub example_parse example_fs example_epub ''/tmp/x'')))"
  by code_simp

theorem extract_epub_result_witness:
  "(\<exists>fs1 fs2.
      mkdir_parents example_fs (parse_path ''/tmp/x'') = Inr fs1
    \<and> extractall fs1 (parse_path ''/tmp/x'') [example_mimetype] = Inr fs2
    \<and> \<not> path_exists fs2 (join_str (join_str (parse_path ''/tmp/x'') ''META-INF'') ''container.xml'')
    \<and> extract_epub example_parse example_fs [example_mimetype] ''/tmp/x''
        = Inl (FileNotFoundError ''Invalid EPUB: container.xml not found''))
   \<and> (\<exists>fs1 fs2.
      mkdir_parents example_fs (parse_path ''/tmp/x'') = Inr fs1
    \<and> extractall fs1 (parse_path ''/tmp/x'')
          [\<lparr>filename = ''META-INF/container.xml'', compress_type = ZIP_DEFLATED, data = ''E''\<rparr>]
        = Inr fs2
    \<and> parse_file example_parse fs2
          (join_str (join_str (parse_path ''/tmp/x'') ''META-INF'') ''container.xml'')
        = Inr example_container_empty
    \<and> find_desc CONTAINER_ROOTFILE example_container_empty = None
    \<and> extract_epub example_parse example_fs
          [\<lparr>filename = ''META-INF/container.xml'', compress_type = ZIP_DEFLATED, data = ''E''\<rparr>]
          ''/tmp/x''
        = Inl (ValueError ''No rootfile in container.xml''))
   \<and> (\<exists>info fs'.
      extract_epub example_parse example_fs example_epub ''/tmp/x'' = Inr (info, fs')
    \<and> info_extract_dir info = ''/tmp/x''
    \<and> info_opf_path info = ''OEBPS/content.opf''
    \<and> info_opf_full_path info = ''/tmp/x/OEBPS/content.opf''
    \<and> anchor (parse_path (info_opf_full_path info)) \<noteq> [])"
proof (intro conjI)
  have "extract_epub example_parse example_fs [example_mimetype] ''/tmp/x''
        = Inl (FileNotFoundError ''Invalid EPUB: container.xml not found'')"
    using extract_epub_result[where fs = example_fs and output_dir = "''/tmp/x''"
        and epub = "[example_mimetype]" and ET_parse = example_parse,
        THEN conjunct1, rule_format, OF example_bare(1,2), THEN conjunct1, rule_format,
        OF example_bare(3)] .
  with example_bare show "\<exists>fs1 fs2.
      mkdir_parents example_fs (parse_path ''/tmp/x'') = Inr fs1
    \<and> extractall fs1 (parse_path ''/tmp/x'') [example_mimetype] = Inr fs2
    \<and> \<not> path_exists fs2 (join_str (join_str (parse_path ''/tmp/x'') ''META-INF'') ''container.xml'')
    \<and> extract_epub example_parse example_fs [example_mimetype] ''/tmp/x''
        = Inl (FileNotFoundError ''Invalid EPUB: container.xml not found'')"
    by (intro exI conjI)
next
  have "extract_epub example_parse example_fs
          [\<lparr>filename = ''META-INF/container.xml'', compress_type = ZIP_DEFLATED, data = ''E''\<rparr>]
          ''/tmp/x''
        = Inl (ValueError ''No rootfile in container.xml'')"
    using extract_epub_result[where fs = example_fs and output_dir = "''/tmp/x''"
        and ET_parse = example_parse,
        THEN conjunct1, rule_format, OF example_bare(1) example_no_rootfile(1),
        THEN conjunct2, rule_format, OF example_no_rootfile(2,3)] .
  with example_bare(1) example_no_rootfile show "\<exists>fs1 fs2.
      mkdir_parents example_fs (parse_path ''/tmp/x'') = Inr fs1
    \<and> extractall fs1 (parse_path ''/tmp/x'')
          [\<lparr>filename = ''META-INF/container.xml'', compress_type = ZIP_DEFLATED, data = ''E''\<rparr>]
        = Inr fs2
    \<and> parse_file example_parse fs2
          (join_str (join_str (parse_path ''/tmp/x'') ''META-INF'') ''container.xml'')
        = Inr example_container_empty
    \<and> find_desc CONTAINER_ROOTFILE example_container_empty = None
    \<and> extract_epub example_parse example_fs
          [\<lparr>filename = ''META-INF/container.xml'', compress_type = ZIP_DEFLATED, data = ''E''\<rparr>]
          ''/tmp/x''
        = Inl (ValueError ''No rootfile in container.xml'')"
    by (intro exI conjI)
next
  have a: "anchor (parse_path ''/tmp/x'') \<noteq> []" by code_simp
  from extract_epub_result[where fs = example_fs and output_dir = "''/tmp/x''"
        and ET_parse = example_parse and epub = example_epub,
        THEN conjunct2, rule_format, OF example_extract_x]
  have "anchor (parse_path (info_opf_full_path
          \<lparr>info_extract_dir = ''/tmp/x'', info_opf_path = ''OEBPS/content.opf'',
            info_opf_full_path = ''/tmp/x/OEBPS/content.opf''\<rparr>)) \<noteq> []"
    using a by blast
  with example_extract_x show "\<exists>info fs'.
      extract_epub example_parse example_fs example_epub ''/tmp/x'' = Inr (info, fs')
    \<and> info_extract_dir info = ''/tmp/x''
    \<and> info_opf_path info = ''OEBPS/content.opf''
    \<and> info_opf_full_path info = ''/tmp/x/OEBPS/content.opf''
    \<and> anchor (parse_path (info_opf_full_path info)) \<noteq> []"
    by (intro exI[where x = "\<lparr>info_extract_dir = ''/tmp/x'', info_opf_path = ''OEBPS/content.opf'',
            info_opf_full_path = ''/tmp/x/OEBPS/content.opf''\<rparr>"] exI conjI) simp_all
qed

section \<open>The Archive Packer\<close>

lemma resolve_child:
  assumes "resolve fs p = Some loc" and "lookup (fs_root fs) loc = Some (Dir es)"
    and "entry_name n" and "map_of es n = Some v"
  shows "join_str p n = Path (anchor p) (parts p @ [n])"
    and "resolve fs (join_str p n) = Some (loc @ [n])"
    and "stat fs (join_str p n) = Some v"
proof -
  from assms(3) have pn: "parse_path n = Path [] [n]"
    by (simp add: entry_name_def valid_name_parse)
  then show j: "join_str p n = Path (anchor p) (parts p @ [n])"
    by (simp add: join_str_def joinpath_def)
  have st: "start_of fs (Path (anchor p) (parts p @ [n])) = start_of fs p"
    by (simp add: start_of_def)
  from assms(1) obtain es0 where
    s0: "lookup (fs_root fs) (start_of fs p) = Some (Dir es0)"
    and l: "locate (fs_root fs) (start_of fs p) (parts p) = Some loc"
    by (auto simp: resolve_def split: option.splits node.splits)
  have v: "lookup (fs_root fs) (loc @ [n]) = Some v"
    using assms(2,4) by (simp add: lookup_snoc)
  have "locate (fs_root fs) loc [n] = Some (loc @ [n])"
    using assms(2,3,4) v by (simp add: entry_name_def)
  with l have "locate (fs_root fs) (start_of fs p) (parts p @ [n]) = Some (loc @ [n])"
    by (simp add: locate_append)
  with s0 show r: "resolve fs (join_str p n) = Some (loc @ [n])"
    by (simp add: j resolve_def st)
  from r v show "stat fs (join_str p n) = Some v"
    by (simp add: stat_def)
qed

lemma str_path_rel: "rp \<noteq> [] \<Longrightarrow> str_path (Path [] rp) = join_with ''/'' rp"
  by (simp add: str_path_def)

lemma map_of_distinct_entries:
  "distinct (map fst es) \<Longrightarrow> (n, v) \<in> set es \<Longrightarrow> map_of es n = Some v"
  by simp

lemma wf_entries_iff:
  "wf_entries es \<longleftrightarrow> (\<forall>(n, v) \<in> set es. entry_name n \<and> wf_node v)"
  by (induction es) auto

text \<open>
  Opening the archive file: it is a regular file afterwards, no directory comes into
  being, and what lies outside its location stays as it is.
\<close>

lemma open_output_result:
  assumes "open_output fs output_path = Inr (fs1, out)"
  obtains es where "fs1 = fs\<lparr>fs_root := put (fs_root fs) out (File [])\<rparr>" "out \<noteq> []"
    "lookup (fs_root fs) (butlast out) = Some (Dir es)"
    "map_of es (last out) = None \<or> (\<exists>d. map_of es (last out) = Some (File d))"
proof -
  let ?p = "parse_path output_path"
  from assms obtain l es where l: "resolve fs (Path (anchor ?p) (butlast (parts ?p))) = Some l"
    and es: "lookup (fs_root fs) l = Some (Dir es)"
    and m: "\<forall>sub. map_of es (last (parts ?p)) \<noteq> Some (Dir sub)"
    and r: "fs1 = fs\<lparr>fs_root := put (fs_root fs) (l @ [last (parts ?p)]) (File [])\<rparr>"
           "out = l @ [last (parts ?p)]"
    by (auto simp: open_output_def Let_def split: if_splits option.splits node.splits)
  have "map_of es (last out) = None \<or> (\<exists>d. map_of es (last out) = Some (File d))"
  proof (cases "map_of es (last (parts ?p))")
    case None
    then show ?thesis by (simp add: r(2))
  next
    case (Some n)
    with m show ?thesis by (cases n) (simp_all add: r(2))
  qed
  with r es show ?thesis by (intro that[of es]) simp_all
qed

lemma open_output_old:
  assumes "open_output fs output_path = Inr (fs1, out)"
  shows "lookup (fs_root fs) out = None \<or> (\<exists>d. lookup (fs_root fs) out = Some (File d))"
    and "lookup (fs_root fs) (out @ c # cs) = None"
proof -
  from assms obtain es where h: "out \<noteq> []" "lookup (fs_root fs) (butlast out) = Some (Dir es)"
    "map_of es (last out) = None \<or> (\<exists>d. map_of es (last out) = Some (File d))"
    by (rule open_output_result)
  from h(1) have "lookup (fs_root fs) out = lookup (fs_root fs) (butlast out @ [last out])"
    by simp
  also have "\<dots> = map_of es (last out)" using h(2) by (simp only: lookup_snoc) simp
  finally have e: "lookup (fs_root fs) out = map_of es (last out)" .
  with h(3) show o: "lookup (fs_root fs) out = None \<or> (\<exists>d. lookup (fs_root fs) out = Some (File d))"
    by simp
  then show "lookup (fs_root fs) (out @ c # cs) = None"
    by (auto simp: lookup_append)
qed

lemma lookup_put_dir_reflect:
  "\<not> is_dir_node n \<Longrightarrow> lookup (put r q n) p = Some (Dir es1) \<Longrightarrow> \<exists>es. lookup r p = Some (Dir es)"
proof (induction r q n arbitrary: p rule: put.induct)
  case (1 r new)
  then show ?case by (cases new; cases p) auto
next
  case (2 d c cs new)
  then show ?case by simp
next
  case (3 es c cs new)
  show ?case
  proof (cases p)
    case Nil
    then show ?thesis by simp
  next
    case (Cons c' ps)
    show ?thesis
    proof (cases "map_of es c")
      case None
      show ?thesis
      proof (cases "cs = []")
        case True
        with None "3.prems" Cons show ?thesis
          by (cases new; cases ps) (auto simp: map_of_snoc_new split: if_splits option.splits)
      next
        case False
        with None "3.prems" Cons show ?thesis by simp
      qed
    next
      case (Some ch)
      show ?thesis
      proof (cases "c' = c")
        case True
        with Some "3.prems" Cons have "lookup (put ch cs new) ps = Some (Dir es1)"
          by (simp add: map_of_update_entry)
        from "3.IH"[OF Some "3.prems"(1) this] Some Cons True show ?thesis by simp
      next
        case False
        with Some "3.prems" Cons show ?thesis by (simp add: map_of_update_entry)
      qed
    qed
  qed
qed

lemma lookup_put_other:
  "\<not> prefix p q \<Longrightarrow> lookup r p = Some t \<Longrightarrow>
   lookup r q = None \<or> (\<exists>d. lookup r q = Some (File d)) \<Longrightarrow>
   lookup (put r q n) p = Some t"
proof (induction r q n arbitrary: p rule: put.induct)
  case (1 r new)
  then show ?case by (cases p) auto
next
  case (2 d c cs new)
  then show ?case by simp
next
  case (3 es c cs new)
  from "3.prems"(1) obtain c' ps where p: "p = c' # ps" by (cases p) auto
  show ?case
  proof (cases "map_of es c")
    case None
    with "3.prems" p have "c' \<noteq> c" by (auto split: option.splits)
    with None "3.prems" p show ?thesis
      by (auto simp: map_add_def split: option.splits)
  next
    case (Some ch)
    show ?thesis
    proof (cases "c' = c")
      case True
      with "3.prems" p Some have a: "\<not> prefix ps cs" "lookup ch ps = Some t"
        "lookup ch cs = None \<or> (\<exists>d. lookup ch cs = Some (File d))"
        by simp_all
      from "3.IH"[OF Some a] Some p True show ?thesis by (simp add: map_of_update_entry)
    next
      case False
      with Some "3.prems" p show ?thesis by (simp add: map_of_update_entry)
    qed
  qed
qed

lemma locate_start: "locate r l cs = Some L \<Longrightarrow> lookup r l \<noteq> None"
  by (cases cs) (auto split: option.splits node.splits)

lemma locate_dir_reflect:
  assumes "\<And>p es1. lookup r1 p = Some (Dir es1) \<Longrightarrow> \<exists>es. lookup r p = Some (Dir es)"
  shows "locate r1 l cs = Some L \<Longrightarrow> lookup r1 L = Some (Dir esL) \<Longrightarrow> locate r l cs = Some L"
proof (induction cs arbitrary: l)
  case Nil
  then have "L = l" by (auto split: option.splits)
  with Nil.prems(2) assms[of l esL] show ?case by auto
next
  case (Cons c cs)
  from Cons.prems(1) obtain es1 where es1: "lookup r1 l = Some (Dir es1)"
    by (auto split: option.splits node.splits)
  from assms[OF this] obtain es where es: "lookup r l = Some (Dir es)" by blast
  show ?case
  proof (cases "c = ''..''")
    case True
    with Cons es1 es show ?thesis by simp
  next
    case False
    with Cons.prems(1) es1 have loc: "locate r1 (l @ [c]) cs = Some L"
      by (auto split: option.splits)
    from Cons.IH[OF loc Cons.prems(2)] have loc': "locate r (l @ [c]) cs = Some L" .
    from locate_start[OF loc'] es have "map_of es c \<noteq> None" by (simp add: lookup_snoc)
    with False es loc' show ?thesis by auto
  qed
qed

lemma open_output_keeps:
  assumes "open_output fs output_path = Inr (fs1, out)"
    and "resolve fs p = Some L" and "lookup (fs_root fs) L = Some t" and "\<not> prefix L out"
  shows "resolve fs1 p = Some L" and "lookup (fs_root fs1) L = Some t"
proof -
  let ?r = "fs_root fs"
  let ?r1 = "put ?r out (File [])"
  from assms(1) obtain es where fs1: "fs1 = fs\<lparr>fs_root := ?r1\<rparr>"
    by (rule open_output_result)
  note old = open_output_old[OF assms(1)]
  have kd: "kind ?r1 q = kind ?r q" if "lookup ?r q \<noteq> None" for q
  proof (rule kind_put)
    show "lookup ?r (out @ [c]) = None" for c by (rule old(2))
    show "lookup ?r out = None \<or> kind ?r out = Some (is_dir_node (File []))"
      using old(1) by (auto simp: kind_def)
    show "lookup ?r q \<noteq> None" by (rule that)
  qed
  let ?s = "start_of fs p"
  from assms(2) obtain es0 where s0: "lookup ?r ?s = Some (Dir es0)"
    and loc: "locate ?r ?s (parts p) = Some L"
    by (auto simp: resolve_def split: option.splits node.splits)
  from s0 kd[of ?s] have "kind ?r1 ?s = Some True" by (simp add: kind_def)
  then obtain es0' where s0': "lookup ?r1 ?s = Some (Dir es0')"
    by (auto simp: kind_def elim: is_dir_node.elims)
  have loc': "locate ?r1 ?s (parts p) = Some L"
    by (rule locate_kind[where r = ?r, OF kd loc])
  have ss: "start_of (fs\<lparr>fs_root := ?r1\<rparr>) p = ?s" by (simp add: start_of_def)
  from s0' loc' show "resolve fs1 p = Some L"
    by (simp add: resolve_def ss fs1)
  from lookup_put_other[OF assms(4,3) old(1)] show "lookup (fs_root fs1) L = Some t"
    by (simp add: fs1)
qed

lemma open_output_missing:
  assumes "open_output fs output_path = Inr (fs1, out)" and "stat fs p = None"
  shows "stat fs1 p = None \<or> (\<exists>d. stat fs1 p = Some (File d))"
proof (cases "stat fs1 p")
  case None
  then show ?thesis by simp
next
  case (Some n)
  show ?thesis
  proof (cases n)
    case (File d)
    with Some show ?thesis by simp
  next
    case (Dir es1)
    let ?r = "fs_root fs"
    let ?r1 = "put ?r out (File [])"
    from assms(1) obtain es where fs1: "fs1 = fs\<lparr>fs_root := ?r1\<rparr>"
      by (rule open_output_result)
    have refl: "\<exists>es. lookup ?r q = Some (Dir es)" if "lookup ?r1 q = Some (Dir es')" for q es'
      using that by (intro lookup_put_dir_reflect[where n = "File []"]) simp_all
    let ?s = "start_of fs p"
    have ss: "start_of (fs\<lparr>fs_root := ?r1\<rparr>) p = ?s" by (simp add: start_of_def)
    from Some Dir obtain L where L: "resolve fs1 p = Some L" and lL: "lookup ?r1 L = Some (Dir es1)"
      by (auto simp: stat_def fs1 split: option.splits)
    from L obtain es0' where s0': "lookup ?r1 ?s = Some (Dir es0')"
      and loc': "locate ?r1 ?s (parts p) = Some L"
      by (auto simp: resolve_def ss fs1 split: option.splits node.splits)
    from refl[OF s0'] obtain es0 where s0: "lookup ?r ?s = Some (Dir es0)" by blast
    have loc: "locate ?r ?s (parts p) = Some L"
      using refl loc' lL by (rule locate_dir_reflect)
    from refl[OF lL] obtain esL where "lookup ?r L = Some (Dir esL)" by blast
    with s0 loc have "stat fs p = Some (Dir esL)" by (simp add: stat_def resolve_def)
    with assms(2) show ?thesis by simp
  qed
qed

lemma add_members_append:
  "add_members Zp out l (xs @ ys) zf
     = (case add_members Zp out l xs zf of
          Inl e \<Rightarrow> Inl e
        | Inr zf' \<Rightarrow> add_members Zp out l ys zf')"
  by (induction xs arbitrary: zf) (simp_all split: sum.splits)

lemma add_members_names:
  "add_members Zp out l fl zf = Inr zf' \<Longrightarrow>
   \<exists>rest. zf' = zf @ rest \<and> map filename rest = map (\<lambda>f. join_with ''/'' (fst f)) fl"
proof (induction fl arbitrary: zf)
  case Nil
  then show ?case by simp
next
  case (Cons f fl)
  from Cons.prems obtain w where
    a: "add_members Zp out l fl
          (zf @ [\<lparr>filename = join_with ''/'' (fst f), compress_type = ZIP_DEFLATED, data = w\<rparr>])
        = Inr zf'"
    by (auto split: if_splits sum.splits)
  let ?m = "\<lparr>filename = join_with ''/'' (fst f), compress_type = ZIP_DEFLATED, data = w\<rparr>"
  from Cons.IH[OF a] obtain rest where
    r: "zf' = (zf @ [?m]) @ rest" "map filename rest = map (\<lambda>f. join_with ''/'' (fst f)) fl"
    by blast
  show ?case
    by (rule exI[where x = "?m # rest"]) (use r in simp)
qed

lemma add_members_outside:
  "\<forall>f \<in> set fl. l @ fst f \<noteq> out \<Longrightarrow>
   add_members Zp out l fl zf = Inr (zf @ map deflated_member fl)"
  by (induction fl arbitrary: zf) (simp_all add: deflated_member_def)

lemma first_member_names:
  assumes "first_member Zp out l n = Inr first"
  shows "map filename first = map filename (mimetype_member n)"
    and "map compress_type first = map compress_type (mimetype_member n)"
  using assms
  by (auto simp: first_member_def mimetype_member_def
      split: option.splits node.splits if_splits sum.splits)

lemma first_member_outside:
  "l @ [''mimetype''] \<noteq> out \<Longrightarrow> first_member Zp out l n = Inr (mimetype_member n)"
  by (simp add: first_member_def mimetype_member_def split: option.splits node.splits)

lemma pack_files_dir:
  assumes "anchor dirpath = anchor source" and "parts dirpath = parts source @ rel"
    and "resolve fs dirpath = Some (l @ rel)" and "lookup (fs_root fs) (l @ rel) = Some (Dir es)"
  shows "\<forall>(n, v) \<in> set es'. entry_name n \<and> map_of es n = Some v \<Longrightarrow>
    pack_files Zp fs out source dirpath (filenames es') zf
      = add_members Zp out l
          (filter (\<lambda>f. last (fst f) \<noteq> ''mimetype'')
             (map (\<lambda>(rp, d). (rel @ rp, d)) (dir_files es'))) zf"
proof (induction es' arbitrary: zf rule: dir_files.induct)
  case 1
  show ?case by (simp add: filenames_def)
next
  case (2 name d es')
  from "2.prems" have en: "entry_name name" and mo: "map_of es name = Some (File d)"
    and rest: "\<forall>(n, v) \<in> set es'. entry_name n \<and> map_of es n = Some v"
    by auto
  note rc = resolve_child[OF assms(3,4) en mo]
  have fn: "filenames ((name, File d) # es') = name # filenames es'"
    by (simp add: filenames_def)
  show ?case
  proof (cases "name = ''mimetype''")
    case True
    with "2.IH"[OF rest] fn show ?thesis by simp
  next
    case False
    let ?m = "\<lambda>w. \<lparr>filename = join_with ''/'' (rel @ [name]), compress_type = ZIP_DEFLATED,
                    data = w\<rparr>"
    have rel: "relative_to (join_str dirpath name) source = Inr (Path [] (rel @ [name]))"
      using assms(1,2) by (simp add: rc(1) relative_to_def)
    have lk: "lookup (fs_root fs) ((l @ rel) @ [name]) = Some (File d)"
      using assms(4) mo by (simp only: lookup_snoc) simp
    have w: "zf_write Zp fs out zf (join_str dirpath name) (str_path (Path [] (rel @ [name])))
               ZIP_DEFLATED
             = (if l @ rel @ [name] = out
                then (case Zp zf of Inl e \<Rightarrow> Inl e | Inr w \<Rightarrow> Inr (?m w))
                else Inr (?m d))"
      using rc(2) lk by (simp add: zf_write_def str_path_rel)
    show ?thesis
    proof (cases "l @ rel @ [name] = out")
      case same: True
      show ?thesis
      proof (cases "Zp zf")
        case (Inl e)
        with same False fn rel w show ?thesis by (simp add: Let_def)
      next
        case (Inr x)
        with same False fn rel w "2.IH"[OF rest, of "zf @ [?m x]"] show ?thesis
          by (simp add: Let_def)
      qed
    next
      case other: False
      with False fn rel w "2.IH"[OF rest, of "zf @ [?m d]"] show ?thesis
        by (simp add: Let_def)
    qed
  qed
next
  case (3 name sub es')
  then show ?case by (simp add: filenames_def)
qed

lemma pack_walk_append:
  "pack_walk Zp fs out source (xs @ ys) zf
     = (case pack_walk Zp fs out source xs zf of
          Inl e \<Rightarrow> Inl e
        | Inr zf' \<Rightarrow> pack_walk Zp fs out source ys zf')"
  by (induction xs arbitrary: zf) (auto split: sum.splits)

lemma pack_walk_tree:
  "wf_node n \<Longrightarrow> anchor dirpath = anchor source \<Longrightarrow> parts dirpath = parts source @ rel \<Longrightarrow>
   resolve fs dirpath = Some (l @ rel) \<Longrightarrow> lookup (fs_root fs) (l @ rel) = Some n \<Longrightarrow>
   pack_walk Zp fs out source (walk_node dirpath n) zf
     = add_members Zp out l
         (filter (\<lambda>f. last (fst f) \<noteq> ''mimetype'')
            (map (\<lambda>(rp, d). (rel @ rp, d)) (tree_files n))) zf"
  and
  "wf_entries es' \<Longrightarrow> anchor dirpath = anchor source \<Longrightarrow> parts dirpath = parts source @ rel \<Longrightarrow>
   resolve fs dirpath = Some (l @ rel) \<Longrightarrow> lookup (fs_root fs) (l @ rel) = Some (Dir es) \<Longrightarrow>
   \<forall>(nm, v) \<in> set es'. map_of es nm = Some v \<Longrightarrow>
   pack_walk Zp fs out source (walk_entries dirpath es') zf
     = add_members Zp out l
         (filter (\<lambda>f. last (fst f) \<noteq> ''mimetype'')
            (map (\<lambda>(rp, d). (rel @ rp, d)) (sub_files es'))) zf"
proof (induction dirpath n and dirpath es' arbitrary: rel zf and rel zf es
    rule: walk_node_walk_entries.induct)
  case (1 dirpath d)
  show ?case by simp
next
  case (2 dirpath es0)
  from "2.prems"(1) have d: "distinct (map fst es0)" and w: "wf_entries es0" by auto
  have all: "\<forall>(n, v) \<in> set es0. entry_name n \<and> map_of es0 n = Some v"
    using d w by (auto simp: wf_entries_iff)
  then have all': "\<forall>(n, v) \<in> set es0. map_of es0 n = Some v" by auto
  have f: "pack_files Zp fs out source dirpath (filenames es0) zf
      = add_members Zp out l
          (filter (\<lambda>f. last (fst f) \<noteq> ''mimetype'')
             (map (\<lambda>(rp, d). (rel @ rp, d)) (dir_files es0))) zf"
    using "2.prems"(2,3,4,5) all by (rule pack_files_dir)
  show ?case
    using f "2.IH"[OF w "2.prems"(2,3,4,5) all']
    by (simp add: add_members_append split: sum.splits)
next
  case (3 dirpath)
  show ?case by simp
next
  case (4 dirpath name d es')
  then show ?case by simp
next
  case (5 dirpath name sub es')
  from "5.prems"(1) have en: "entry_name name" and ws: "wf_node (Dir sub)" and we: "wf_entries es'"
    by auto
  from "5.prems"(6) have mo: "map_of es name = Some (Dir sub)"
    and rest: "\<forall>(nm, v) \<in> set es'. map_of es nm = Some v"
    by auto
  note rc = resolve_child[OF "5.prems"(4,5) en mo]
  have a: "anchor (join_str dirpath name) = anchor source"
    using "5.prems"(2) by (simp add: rc(1))
  have p: "parts (join_str dirpath name) = parts source @ (rel @ [name])"
    using "5.prems"(3) by (simp add: rc(1))
  have r: "resolve fs (join_str dirpath name) = Some (l @ (rel @ [name]))"
    using rc(2) by simp
  have lk: "lookup (fs_root fs) (l @ (rel @ [name])) = Some (Dir sub)"
    using "5.prems"(5) mo lookup_snoc[of "fs_root fs" "l @ rel" name] by simp
  show ?case
    using "5.IH"(1)[OF ws a p r lk, of zf] "5.IH"(2)[OF we "5.prems"(2,3,4,5) rest]
    by (simp add: pack_walk_append add_members_append case_prod_unfold comp_def
        del: tree_files.simps walk_node.simps split: sum.splits)
qed

lemma mimetype_entry_name: "entry_name ''mimetype''"
  by (simp add: entry_name_def valid_name_def)

lemma resolve_child_None:
  assumes "resolve fs p = Some loc" and "lookup (fs_root fs) loc = Some (Dir es)"
    and "entry_name n" and "map_of es n = None"
  shows "stat fs (join_str p n) = None"
proof -
  from assms(3) have pn: "parse_path n = Path [] [n]"
    by (simp add: entry_name_def valid_name_parse)
  then have j: "join_str p n = Path (anchor p) (parts p @ [n])"
    by (simp add: join_str_def joinpath_def)
  have st: "start_of fs (Path (anchor p) (parts p @ [n])) = start_of fs p"
    by (simp add: start_of_def)
  from assms(1) have l: "locate (fs_root fs) (start_of fs p) (parts p) = Some loc"
    by (auto simp: resolve_def split: option.splits node.splits)
  have "locate (fs_root fs) loc [n] = None"
    using assms(2,3,4) by (simp add: entry_name_def)
  with l have "locate (fs_root fs) (start_of fs p) (parts p @ [n]) = None"
    by (simp add: locate_append)
  then show ?thesis
    by (simp add: j stat_def resolve_def st split: option.splits node.splits)
qed

text \<open>
  What \<^verbatim>\<open>pack_epub\<close> writes when the archive file can be opened and the source
  directory is then a well-formed directory: the member for a top-level \<^verbatim>\<open>mimetype\<close>,
  then one deflated member for every file of the tree whose own name is not
  \<^verbatim>\<open>mimetype\<close>, in the order of the walk.
\<close>

lemma pack_epub_members:
  assumes "source_dir \<noteq> []" and "open_output fs output_path = Inr (fs1, out)"
    and "resolve fs1 (parse_path source_dir) = Some l"
    and "lookup (fs_root fs1) l = Some (Dir es)" and "wf_node (Dir es)"
  shows "pack_epub Zp fs source_dir output_path
      = (case first_member Zp out l (Dir es) of
           Inl e \<Rightarrow> Inl e
         | Inr first \<Rightarrow>
             add_members Zp out l
               (filter (\<lambda>f. last (fst f) \<noteq> ''mimetype'') (tree_files (Dir es))) first)"
proof -
  let ?src = "parse_path source_dir"
  note r = assms(3) and lk = assms(4)
  from r lk have st: "stat fs1 ?src = Some (Dir es)" by (simp add: stat_def)
  have w: "os_walk fs1 source_dir = walk_node ?src (Dir es)"
    using assms(1) st by (simp add: os_walk_def)
  have t: "pack_walk Zp fs1 out ?src (walk_node ?src (Dir es)) zf
      = add_members Zp out l
          (filter (\<lambda>f. last (fst f) \<noteq> ''mimetype'') (tree_files (Dir es))) zf" for zf
    using pack_walk_tree(1)[OF assms(5), of ?src ?src "[]" fs1 l Zp out zf] r lk
    by (simp add: case_prod_unfold del: tree_files.simps walk_node.simps)
  show ?thesis
  proof (cases "map_of es ''mimetype''")
    case None
    from resolve_child_None[OF r lk mimetype_entry_name None]
    have "\<not> path_exists fs1 (join_str ?src ''mimetype'')" by (simp add: path_exists_def)
    moreover have "first_member Zp out l (Dir es) = Inr []"
      using None by (simp add: first_member_def)
    ultimately show ?thesis using w t[of "[]"] assms(2)
      by (simp add: pack_epub_def Let_def del: tree_files.simps walk_node.simps)
  next
    case (Some v)
    note rc = resolve_child[OF r lk mimetype_entry_name Some]
    have e: "path_exists fs1 (join_str ?src ''mimetype'')" using rc(3) by (simp add: path_exists_def)
    have lv: "lookup (fs_root fs1) (l @ [''mimetype'']) = Some v"
      using lk Some by (simp add: lookup_snoc)
    have z: "(case zf_write Zp fs1 out [] (join_str ?src ''mimetype'') ''mimetype'' ZIP_STORED of
                Inl e \<Rightarrow> Inl e | Inr m \<Rightarrow> Inr [m])
             = first_member Zp out l (Dir es)"
      using rc(2) lv Some
      by (cases v) (simp_all add: zf_write_def first_member_def split: sum.splits)
    show ?thesis
      using e w assms(2) unfolding z[symmetric]
      by (simp add: pack_epub_def Let_def t del: tree_files.simps walk_node.simps
          split: sum.splits)
  qed
qed

lemma tree_files_names:
  "wf_node n \<Longrightarrow> (rp, d) \<in> set (tree_files n) \<Longrightarrow> rp \<noteq> [] \<and> (\<forall>x \<in> set rp. entry_name x)"
  "wf_entries es \<Longrightarrow> (rp, d) \<in> set (sub_files es) \<Longrightarrow> rp \<noteq> [] \<and> (\<forall>x \<in> set rp. entry_name x)"
proof (induction n and es arbitrary: rp d and rp d rule: tree_files_sub_files.induct)
  case (1 d0)
  then show ?case by simp
next
  case (2 es)
  have df: "(rp, d) \<in> set (dir_files es') \<Longrightarrow> wf_entries es' \<Longrightarrow>
      rp \<noteq> [] \<and> (\<forall>x \<in> set rp. entry_name x)" for es'
    by (induction es' rule: dir_files.induct) auto
  from 2 df[of es] show ?case by auto
next
  case 3
  then show ?case by simp
next
  case (4 name d0 es)
  then show ?case by simp
next
  case (5 name sub es)
  from "5.prems" have "(\<exists>rp'. rp = name # rp' \<and> (rp', d) \<in> set (tree_files (Dir sub)))
      \<or> (rp, d) \<in> set (sub_files es)"
    by auto
  then show ?case
  proof
    assume "\<exists>rp'. rp = name # rp' \<and> (rp', d) \<in> set (tree_files (Dir sub))"
    then obtain rp' where rp: "rp = name # rp'" "(rp', d) \<in> set (tree_files (Dir sub))" by blast
    from "5.prems"(1) have "wf_node (Dir sub)" "entry_name name" by auto
    with "5.IH"(1)[OF this(1) rp(2)] rp(1) show ?thesis by simp
  next
    assume "(rp, d) \<in> set (sub_files es)"
    moreover from "5.prems"(1) have "wf_entries es" by simp
    ultimately show ?thesis by (rule "5.IH"(2)[rotated])
  qed
qed

lemma basename_join:
  assumes "rp \<noteq> []" and "\<forall>x \<in> set rp. entry_name x"
  shows "basename (join_with ''/'' rp) = last rp"
proof -
  from assms have "split_on CHR ''/'' (join_with ''/'' rp) = rp"
    by (intro split_on_join) (auto simp: entry_name_def valid_name_def)
  then show ?thesis by (simp add: basename_def)
qed

lemma stat_join_None:
  assumes "stat fs p = None" and "entry_name n"
  shows "stat fs (join_str p n) = None"
proof -
  from assms(2) have pn: "parse_path n = Path [] [n]"
    by (simp add: entry_name_def valid_name_parse)
  then have j: "join_str p n = Path (anchor p) (parts p @ [n])"
    by (simp add: join_str_def joinpath_def)
  have st: "start_of fs (Path (anchor p) (parts p @ [n])) = start_of fs p"
    by (simp add: start_of_def)
  from assms(1) have r: "resolve fs p = None"
    by (auto simp: stat_def split: option.splits dest: locate_exists
        simp: resolve_def split: node.splits)
  then have "resolve fs (join_str p n) = None"
    by (auto simp: j resolve_def st locate_append split: option.splits node.splits)
  then show ?thesis by (simp add: stat_def)
qed

lemma stat_join_File:
  assumes "stat fs p = Some (File d)" and "entry_name n"
  shows "stat fs (join_str p n) = None"
proof -
  from assms(2) have pn: "parse_path n = Path [] [n]"
    by (simp add: entry_name_def valid_name_parse)
  then have j: "join_str p n = Path (anchor p) (parts p @ [n])"
    by (simp add: join_str_def joinpath_def)
  have st: "start_of fs (Path (anchor p) (parts p @ [n])) = start_of fs p"
    by (simp add: start_of_def)
  from assms(1) obtain L where L: "resolve fs p = Some L" "lookup (fs_root fs) L = Some (File d)"
    by (auto simp: stat_def split: option.splits)
  from L(1) have l: "locate (fs_root fs) (start_of fs p) (parts p) = Some L"
    by (auto simp: resolve_def split: option.splits node.splits)
  have "locate (fs_root fs) L [n] = None" using L(2) by simp
  with l have "locate (fs_root fs) (start_of fs p) (parts p @ [n]) = None"
    by (simp add: locate_append)
  then show ?thesis
    by (simp add: j stat_def resolve_def st split: option.splits node.splits)
qed

text \<open>
  C7, as stated, fails: \<^verbatim>\<open>pack_epub\<close> never tests its source directory. For a path
  that does not exist and an archive file that can be opened, \<^verbatim>\<open>exists()\<close> is false
  for the \<^verbatim>\<open>mimetype\<close> below the path, \<^verbatim>\<open>os.walk\<close> drops the error of listing it,
  and the call returns normally, having written an archive without members.
\<close>

theorem pack_epub_missing_counterexample:
  "\<not> path_exists example_fs (parse_path ''/nonexistent'')
   \<and> pack_epub example_partial example_fs ''/nonexistent'' ''/tmp/out.epub'' = Inr []"
  by (intro conjI; code_simp)

text \<open>
  C7, amended. For every source-directory path that does not exist, \<^verbatim>\<open>pack_epub\<close>
  fails when, and only when, the archive file cannot be opened for writing (as when
  the output path lies below the missing directory), and then with the error of
  opening it; when the archive file can be opened, the call raises nothing and
  produces an archive without members.
\<close>

theorem pack_epub_missing_source:
  assumes "\<not> path_exists fs (parse_path source_dir)"
  shows "pack_epub ZIP_partial fs source_dir output_path
           = (case open_output fs output_path of Inl e \<Rightarrow> Inl e | Inr opened \<Rightarrow> Inr [])"
proof (cases "open_output fs output_path")
  case (Inl e)
  then show ?thesis by (simp add: pack_epub_def)
next
  case (Inr opened)
  obtain fs1 out where o: "opened = (fs1, out)" by (cases opened)
  from assms have s: "stat fs (parse_path source_dir) = None"
    by (simp add: path_exists_def)
  from Inr o have op: "open_output fs output_path = Inr (fs1, out)" by simp
  from open_output_missing[OF op s]
  have "stat fs1 (join_str (parse_path source_dir) ''mimetype'') = None
      \<and> os_walk fs1 source_dir = []"
  proof
    assume n: "stat fs1 (parse_path source_dir) = None"
    from n mimetype_entry_name have "stat fs1 (join_str (parse_path source_dir) ''mimetype'') = None"
      by (rule stat_join_None)
    with n show ?thesis by (simp add: os_walk_def)
  next
    assume "\<exists>d. stat fs1 (parse_path source_dir) = Some (File d)"
    then obtain d where f: "stat fs1 (parse_path source_dir) = Some (File d)" ..
    from f mimetype_entry_name have "stat fs1 (join_str (parse_path source_dir) ''mimetype'') = None"
      by (rule stat_join_File)
    with f show ?thesis by (simp add: os_walk_def)
  qed
  with op show ?thesis by (simp add: pack_epub_def path_exists_def)
qed

lemma example_missing_dir: "\<not> path_exists example_fs (parse_path ''missing/dir'')"
  by code_simp

lemma example_open_tmp:
  "open_output example_fs ''/tmp/out.epub''
     = Inr (example_fs\<lparr>fs_root := put (fs_root example_fs) [''tmp'', ''out.epub''] (File [])\<rparr>,
            [''tmp'', ''out.epub''])"
  by code_simp

lemma example_open_missing: "open_output example_fs ''missing/dir/out.epub'' = Inl OSError"
  by code_simp

theorem pack_epub_missing_source_witness:
  "\<not> path_exists example_fs (parse_path ''missing/dir'')
   \<and> pack_epub example_partial example_fs ''missing/dir'' ''/tmp/out.epub'' = Inr []
   \<and> pack_epub example_partial example_fs ''missing/dir'' ''missing/dir/out.epub'' = Inl OSError"
  using pack_epub_missing_source[OF example_missing_dir, of example_partial "''/tmp/out.epub''"]
    pack_epub_missing_source[OF example_missing_dir, of example_partial "''missing/dir/out.epub''"]
    example_missing_dir
  by (simp add: example_open_tmp example_open_missing)

lemma walk_member_names:
  assumes "wf_node (Dir es)"
    and "map filename rest
           = map (\<lambda>f. join_with ''/'' (fst f))
               (filter (\<lambda>f. last (fst f) \<noteq> ''mimetype'') (tree_files (Dir es)))"
  shows "\<forall>m \<in> set rest. basename (filename m) \<noteq> ''mimetype''"
    and "\<forall>(rp, d) \<in> set (tree_files (Dir es)).
           last rp = ''mimetype'' \<longrightarrow> join_with ''/'' rp \<notin> filename ` set rest"
proof -
  let ?files = "filter (\<lambda>f. last (fst f) \<noteq> ''mimetype'') (tree_files (Dir es))"
  have names: "filename ` set rest = (\<lambda>f. join_with ''/'' (fst f)) ` set ?files"
  proof -
    have "filename ` set rest = set (map filename rest)" by (rule set_map[symmetric])
    also have "\<dots> = set (map (\<lambda>f. join_with ''/'' (fst f)) ?files)" by (simp only: assms(2))
    also have "\<dots> = (\<lambda>f. join_with ''/'' (fst f)) ` set ?files" by (rule set_map)
    finally show ?thesis .
  qed
  have nm: "\<exists>rp d. (rp, d) \<in> set (tree_files (Dir es)) \<and> last rp \<noteq> ''mimetype''
      \<and> filename m = join_with ''/'' rp" if "m \<in> set rest" for m
  proof -
    from that have "filename m \<in> (\<lambda>f. join_with ''/'' (fst f)) ` set ?files"
      unfolding names[symmetric] by (rule imageI)
    then obtain f where "f \<in> set ?files" "filename m = join_with ''/'' (fst f)"
      by (rule imageE)
    then show ?thesis
      by (intro exI[where x = "fst f"] exI[where x = "snd f"]) (simp del: tree_files.simps)
  qed
  have c: "basename (filename m) \<noteq> ''mimetype''" if "m \<in> set rest" for m
  proof -
    from nm[OF that] obtain rp d where f: "(rp, d) \<in> set (tree_files (Dir es))"
      "last rp \<noteq> ''mimetype''" "filename m = join_with ''/'' rp"
      by blast
    from tree_files_names(1)[OF assms(1) f(1)] have "basename (join_with ''/'' rp) = last rp"
      by (intro basename_join) auto
    with f show ?thesis by simp
  qed
  then show "\<forall>m \<in> set rest. basename (filename m) \<noteq> ''mimetype''" by blast
  have d: "join_with ''/'' rp \<notin> filename ` set rest"
    if "(rp, d) \<in> set (tree_files (Dir es))" "last rp = ''mimetype''" for rp d
  proof
    assume "join_with ''/'' rp \<in> filename ` set rest"
    then obtain m where m: "join_with ''/'' rp = filename m" "m \<in> set rest" by (rule imageE)
    from tree_files_names(1)[OF assms(1) that(1)] have "basename (join_with ''/'' rp) = last rp"
      by (intro basename_join) auto
    with c[OF m(2)] m(1) that(2) show False by simp
  qed
  show "\<forall>(rp, d) \<in> set (tree_files (Dir es)).
           last rp = ''mimetype'' \<longrightarrow> join_with ''/'' rp \<notin> filename ` set rest"
  proof (intro ballI)
    fix x assume x: "x \<in> set (tree_files (Dir es))"
    obtain rp d where xe: "x = (rp, d)" by (cases x)
    from d[of rp d] x xe
    show "case x of (rp, d) \<Rightarrow>
        last rp = ''mimetype'' \<longrightarrow> join_with ''/'' rp \<notin> filename ` set rest"
      by simp
  qed
qed

text \<open>
  C10. Let the archive file be opened, and let the source directory then exist and be
  well-formed. If the archive file does not lie in the source directory,
  \<^verbatim>\<open>pack_epub\<close> produces an archive, which is the member for a top-level
  \<^verbatim>\<open>mimetype\<close>, if there is one, followed by members none of which has \<^verbatim>\<open>mimetype\<close>
  as the last component of its name: every file named \<^verbatim>\<open>mimetype\<close>, at whatever
  depth, is left out of the walk. Wherever the archive file lies, every archive that
  \<^verbatim>\<open>pack_epub\<close> produces has this form, with a first member of the name and method of
  the member for the top-level \<^verbatim>\<open>mimetype\<close>.
\<close>

theorem pack_epub_skips_mimetype:
  assumes "source_dir \<noteq> []" and "open_output fs output_path = Inr (fs1, out)"
    and "stat fs1 (parse_path source_dir) = Some (Dir es)" and "wf_node (Dir es)"
  shows "(\<not> below fs1 (parse_path source_dir) out \<longrightarrow>
           (\<exists>rest. pack_epub ZIP_partial fs source_dir output_path
                      = Inr (mimetype_member (Dir es) @ rest)
                \<and> (\<forall>m \<in> set rest. basename (filename m) \<noteq> ''mimetype'')
                \<and> (\<forall>(rp, d) \<in> set (tree_files (Dir es)).
                      last rp = ''mimetype'' \<longrightarrow> join_with ''/'' rp \<notin> filename ` set rest)))
         \<and> length (mimetype_member (Dir es)) \<le> 1
         \<and> (\<forall>zf. pack_epub ZIP_partial fs source_dir output_path = Inr zf \<longrightarrow>
               (\<exists>first rest. zf = first @ rest
                  \<and> map filename first = map filename (mimetype_member (Dir es))
                  \<and> map compress_type first = map compress_type (mimetype_member (Dir es))
                  \<and> (\<forall>m \<in> set rest. basename (filename m) \<noteq> ''mimetype'')
                  \<and> (\<forall>(rp, d) \<in> set (tree_files (Dir es)).
                        last rp = ''mimetype'' \<longrightarrow> join_with ''/'' rp \<notin> filename ` set rest)))"
proof (intro conjI impI allI)
  let ?files = "filter (\<lambda>f. last (fst f) \<noteq> ''mimetype'') (tree_files (Dir es))"
  from assms(3) obtain l where r: "resolve fs1 (parse_path source_dir) = Some l"
    and lk: "lookup (fs_root fs1) l = Some (Dir es)"
    by (auto simp: stat_def split: option.splits)
  note pm = pack_epub_members[OF assms(1,2) r lk assms(4), of ZIP_partial]
  show "length (mimetype_member (Dir es)) \<le> 1"
    by (simp add: mimetype_member_def split: option.splits node.splits)
  {
    assume "\<not> below fs1 (parse_path source_dir) out"
    with r have np: "\<not> prefix l out" by (simp add: below_def)
    then have out1: "l @ q \<noteq> out" for q by auto
    have f: "first_member ZIP_partial out l (Dir es) = Inr (mimetype_member (Dir es))"
      using out1 by (rule first_member_outside)
    have "add_members ZIP_partial out l ?files (mimetype_member (Dir es))
        = Inr (mimetype_member (Dir es) @ map deflated_member ?files)"
      using out1 by (intro add_members_outside) simp
    with pm f have a: "pack_epub ZIP_partial fs source_dir output_path
        = Inr (mimetype_member (Dir es) @ map deflated_member ?files)"
      by simp
    have n: "map filename (map deflated_member ?files) = map (\<lambda>f. join_with ''/'' (fst f)) ?files"
      by (simp add: deflated_member_def comp_def del: tree_files.simps)
    show "\<exists>rest. pack_epub ZIP_partial fs source_dir output_path
                      = Inr (mimetype_member (Dir es) @ rest)
                \<and> (\<forall>m \<in> set rest. basename (filename m) \<noteq> ''mimetype'')
                \<and> (\<forall>(rp, d) \<in> set (tree_files (Dir es)).
                      last rp = ''mimetype'' \<longrightarrow> join_with ''/'' rp \<notin> filename ` set rest)"
      by (rule exI[where x = "map deflated_member ?files"])
        (intro conjI a walk_member_names[OF assms(4) n])
  }
  {
    fix zf
    assume "pack_epub ZIP_partial fs source_dir output_path = Inr zf"
    with pm obtain first where f: "first_member ZIP_partial out l (Dir es) = Inr first"
      and am: "add_members ZIP_partial out l ?files first = Inr zf"
      by (auto split: sum.splits)
    from add_members_names[OF am] obtain rest where
      rest: "zf = first @ rest" "map filename rest = map (\<lambda>f. join_with ''/'' (fst f)) ?files"
      by blast
    show "\<exists>first rest. zf = first @ rest
                  \<and> map filename first = map filename (mimetype_member (Dir es))
                  \<and> map compress_type first = map compress_type (mimetype_member (Dir es))
                  \<and> (\<forall>m \<in> set rest. basename (filename m) \<noteq> ''mimetype'')
                  \<and> (\<forall>(rp, d) \<in> set (tree_files (Dir es)).
                        last rp = ''mimetype'' \<longrightarrow> join_with ''/'' rp \<notin> filename ` set rest)"
      by (rule exI[where x = first], rule exI[where x = rest])
        (intro conjI rest(1) first_member_names[OF f] walk_member_names[OF assms(4) rest(2)])
  }
qed

text \<open>
  The second example book, packed into the archive file \<^verbatim>\<open>/out.epub\<close>, and packed
  into an archive file that lies in the book's own directory \<^verbatim>\<open>OEBPS\<close>.
\<close>

lemma example_nested_open:
  "open_output example_fs_nested ''/out.epub''
     = Inr (\<lparr>fs_root =
               Dir [(''book'',
                     Dir [(''mimetype'', File ''application/epub+zip''),
                          (''META-INF'', Dir [(''container.xml'', File ''C'')]),
                          (''OEBPS'',
                           Dir [(''content.opf'', File ''O''),
                                (''mimetype'', File ''text/plain'')])]),
                    (''out.epub'', File [])],
             cwd = []\<rparr>,
            [''out.epub''])"
  by code_simp

lemma example_nested_source:
  "stat \<lparr>fs_root =
               Dir [(''book'',
                     Dir [(''mimetype'', File ''application/epub+zip''),
                          (''META-INF'', Dir [(''container.xml'', File ''C'')]),
                          (''OEBPS'',
                           Dir [(''content.opf'', File ''O''),
                                (''mimetype'', File ''text/plain'')])]),
                    (''out.epub'', File [])],
             cwd = []\<rparr> (parse_path ''/book'')
     = Some (Dir [(''mimetype'', File ''application/epub+zip''),
                  (''META-INF'', Dir [(''container.xml'', File ''C'')]),
                  (''OEBPS'',
                   Dir [(''content.opf'', File ''O''), (''mimetype'', File ''text/plain'')])])"
  by code_simp

lemma example_nested_wf:
  "wf_node (Dir [(''mimetype'', File ''application/epub+zip''),
                  (''META-INF'', Dir [(''container.xml'', File ''C'')]),
                  (''OEBPS'',
                   Dir [(''content.opf'', File ''O''), (''mimetype'', File ''text/plain'')])])"
  by code_simp

lemma example_nested_outside:
  "\<not> below \<lparr>fs_root =
               Dir [(''book'',
                     Dir [(''mimetype'', File ''application/epub+zip''),
                          (''META-INF'', Dir [(''container.xml'', File ''C'')]),
                          (''OEBPS'',
                           Dir [(''content.opf'', File ''O''),
                                (''mimetype'', File ''text/plain'')])]),
                    (''out.epub'', File [])],
             cwd = []\<rparr> (parse_path ''/book'') [''out.epub'']"
  by code_simp

lemma example_inside_open:
  "open_output example_fs_nested ''/book/OEBPS/out.epub''
     = Inr (\<lparr>fs_root =
               Dir [(''book'',
                     Dir [(''mimetype'', File ''application/epub+zip''),
                          (''META-INF'', Dir [(''container.xml'', File ''C'')]),
                          (''OEBPS'',
                           Dir [(''content.opf'', File ''O''), (''mimetype'', File ''text/plain''),
                                (''out.epub'', File [])])])],
             cwd = []\<rparr>,
            [''book'', ''OEBPS'', ''out.epub''])"
  by code_simp

lemma example_inside_source:
  "stat \<lparr>fs_root =
               Dir [(''book'',
                     Dir [(''mimetype'', File ''application/epub+zip''),
                          (''META-INF'', Dir [(''container.xml'', File ''C'')]),
                          (''OEBPS'',
                           Dir [(''content.opf'', File ''O''), (''mimetype'', File ''text/plain''),
                                (''out.epub'', File [])])])],
             cwd = []\<rparr> (parse_path ''/book'')
     = Some (Dir [(''mimetype'', File ''application/epub+zip''),
                  (''META-INF'', Dir [(''container.xml'', File ''C'')]),
                  (''OEBPS'',
                   Dir [(''content.opf'', File ''O''), (''mimetype'', File ''text/plain''),
                        (''out.epub'', File [])])])"
  by code_simp

lemma example_inside_wf:
  "wf_node (Dir [(''mimetype'', File ''application/epub+zip''),
                  (''META-INF'', Dir [(''container.xml'', File ''C'')]),
                  (''OEBPS'',
                   Dir [(''content.opf'', File ''O''), (''mimetype'', File ''text/plain''),
                        (''out.epub'', File [])])])"
  by code_simp

lemma example_inside_pack:
  "pack_epub example_partial example_fs_nested ''/book'' ''/book/OEBPS/out.epub''
     = Inr [\<lparr>filename = ''mimetype'', compress_type = ZIP_STORED,
              data = ''application/epub+zip''\<rparr>,
            \<lparr>filename = ''META-INF/container.xml'', compress_type = ZIP_DEFLATED, data = ''C''\<rparr>,
            \<lparr>filename = ''OEBPS/content.opf'', compress_type = ZIP_DEFLATED, data = ''O''\<rparr>,
            \<lparr>filename = ''OEBPS/out.epub'', compress_type = ZIP_DEFLATED,
              data = ''PKmimetypeMETA-INF/container.xmlOEBPS/content.opf''\<rparr>]"
  by code_simp

theorem pack_epub_skips_mimetype_witness:
  "''/book'' \<noteq> []
   \<and> (\<exists>fs1 out es.
          open_output example_fs_nested ''/out.epub'' = Inr (fs1, out)
        \<and> stat fs1 (parse_path ''/book'') = Some (Dir es) \<and> wf_node (Dir es)
        \<and> \<not> below fs1 (parse_path ''/book'') out
        \<and> ([''OEBPS'', ''mimetype''], ''text/plain'') \<in> set (tree_files (Dir es))
        \<and> (\<exists>rest. pack_epub example_partial example_fs_nested ''/book'' ''/out.epub''
                      = Inr (mimetype_member (Dir es) @ rest)
                \<and> ''OEBPS/mimetype'' \<notin> filename ` set rest))
   \<and> (\<exists>fs1 out es.
          open_output example_fs_nested ''/book/OEBPS/out.epub'' = Inr (fs1, out)
        \<and> stat fs1 (parse_path ''/book'') = Some (Dir es) \<and> wf_node (Dir es)
        \<and> ([''OEBPS'', ''mimetype''], ''text/plain'') \<in> set (tree_files (Dir es))
        \<and> (\<exists>zf first rest.
                pack_epub example_partial example_fs_nested ''/book'' ''/book/OEBPS/out.epub''
                  = Inr zf
              \<and> zf = first @ rest
              \<and> map filename first = [''mimetype'']
              \<and> ''OEBPS/mimetype'' \<notin> filename ` set rest))"
proof -
  let ?es = "[(''mimetype'', File ''application/epub+zip''),
                  (''META-INF'', Dir [(''container.xml'', File ''C'')]),
                  (''OEBPS'',
                   Dir [(''content.opf'', File ''O''), (''mimetype'', File ''text/plain'')])]"
  let ?es' = "[(''mimetype'', File ''application/epub+zip''),
                  (''META-INF'', Dir [(''container.xml'', File ''C'')]),
                  (''OEBPS'',
                   Dir [(''content.opf'', File ''O''), (''mimetype'', File ''text/plain''),
                        (''out.epub'', File [])])]"
  have ne: "''/book'' \<noteq> []" by simp
  have t: "([''OEBPS'', ''mimetype''], ''text/plain'') \<in> set (tree_files (Dir ?es))"
    "([''OEBPS'', ''mimetype''], ''text/plain'') \<in> set (tree_files (Dir ?es'))"
    by code_simp+
  have mn: "map filename (mimetype_member (Dir ?es')) = [''mimetype'']"
    by code_simp
  note outside = pack_epub_skips_mimetype[OF ne example_nested_open example_nested_source
      example_nested_wf, of example_partial]
  note inside = pack_epub_skips_mimetype[OF ne example_inside_open example_inside_source
      example_inside_wf, of example_partial]
  from outside[THEN conjunct1, THEN mp, OF example_nested_outside] obtain rest where r:
    "pack_epub example_partial example_fs_nested ''/book'' ''/out.epub''
       = Inr (mimetype_member (Dir ?es) @ rest)"
    "\<forall>(rp, d) \<in> set (tree_files (Dir ?es)).
        last rp = ''mimetype'' \<longrightarrow> join_with ''/'' rp \<notin> filename ` set rest"
    by (elim exE conjE)
  from r(2) t(1) have "case ([''OEBPS'', ''mimetype''], ''text/plain'') of
      (rp, d) \<Rightarrow> last rp = ''mimetype'' \<longrightarrow> join_with ''/'' rp \<notin> filename ` set rest"
    by (rule bspec)
  then have a: "''OEBPS/mimetype'' \<notin> filename ` set rest" by simp
  let ?zf = "[\<lparr>filename = ''mimetype'', compress_type = ZIP_STORED,
              data = ''application/epub+zip''\<rparr>,
            \<lparr>filename = ''META-INF/container.xml'', compress_type = ZIP_DEFLATED, data = ''C''\<rparr>,
            \<lparr>filename = ''OEBPS/content.opf'', compress_type = ZIP_DEFLATED, data = ''O''\<rparr>,
            \<lparr>filename = ''OEBPS/out.epub'', compress_type = ZIP_DEFLATED,
              data = ''PKmimetypeMETA-INF/container.xmlOEBPS/content.opf''\<rparr>]"
  from inside[THEN conjunct2, THEN conjunct2, THEN spec, THEN mp, OF example_inside_pack]
  obtain first rest' where r':
    "?zf = first @ rest'"
    "map filename first = map filename (mimetype_member (Dir ?es'))"
    "\<forall>(rp, d) \<in> set (tree_files (Dir ?es')).
        last rp = ''mimetype'' \<longrightarrow> join_with ''/'' rp \<notin> filename ` set rest'"
    by (elim exE conjE)
  from r'(3) t(2) have "case ([''OEBPS'', ''mimetype''], ''text/plain'') of
      (rp, d) \<Rightarrow> last rp = ''mimetype'' \<longrightarrow> join_with ''/'' rp \<notin> filename ` set rest'"
    by (rule bspec)
  then have b: "''OEBPS/mimetype'' \<notin> filename ` set rest'" by simp
  note p = example_inside_pack
  have A: "\<exists>fs1 out es.
          open_output example_fs_nested ''/out.epub'' = Inr (fs1, out)
        \<and> stat fs1 (parse_path ''/book'') = Some (Dir es) \<and> wf_node (Dir es)
        \<and> \<not> below fs1 (parse_path ''/book'') out
        \<and> ([''OEBPS'', ''mimetype''], ''text/plain'') \<in> set (tree_files (Dir es))
        \<and> (\<exists>rest. pack_epub example_partial example_fs_nested ''/book'' ''/out.epub''
                      = Inr (mimetype_member (Dir es) @ rest)
                \<and> ''OEBPS/mimetype'' \<notin> filename ` set rest)"
    using r(1) a t(1) example_nested_open example_nested_source example_nested_wf
      example_nested_outside
    by (intro exI[where x = ?es] exI[where x = rest] exI conjI)
  have B: "\<exists>fs1 out es.
          open_output example_fs_nested ''/book/OEBPS/out.epub'' = Inr (fs1, out)
        \<and> stat fs1 (parse_path ''/book'') = Some (Dir es) \<and> wf_node (Dir es)
        \<and> ([''OEBPS'', ''mimetype''], ''text/plain'') \<in> set (tree_files (Dir es))
        \<and> (\<exists>zf first rest.
                pack_epub example_partial example_fs_nested ''/book'' ''/book/OEBPS/out.epub''
                  = Inr zf
              \<and> zf = first @ rest
              \<and> map filename first = [''mimetype'']
              \<and> ''OEBPS/mimetype'' \<notin> filename ` set rest)"
    using p r'(1) r'(2)[unfolded mn] b t(2) example_inside_open example_inside_source
      example_inside_wf
    by (intro exI[where x = ?es'] exI[where x = ?zf] exI[where x = first]
        exI[where x = rest'] exI conjI)
  from ne A B show ?thesis by (intro conjI)
qed

text \<open>
  C2 asks that the top-level \<^verbatim>\<open>mimetype\<close> be written first and stored, and every
  other file deflated under its relative path. The packer at the directory \<^verbatim>\<open>/book\<close>
  of the second example, which holds the files \<^verbatim>\<open>mimetype\<close>,
  \<^verbatim>\<open>META-INF/container.xml\<close>, \<^verbatim>\<open>OEBPS/content.opf\<close> and \<^verbatim>\<open>OEBPS/mimetype\<close>, with
  the archive file \<^verbatim>\<open>/out.epub\<close> outside that directory: the archive has three
  members, and \<^verbatim>\<open>OEBPS/mimetype\<close>, a file other than the top-level \<^verbatim>\<open>mimetype\<close>, is
  not among them.
\<close>

theorem pack_epub_nested_mimetype:
  "stat example_fs_nested (parse_path ''/book/OEBPS/mimetype'') = Some (File ''text/plain'')
   \<and> pack_epub example_partial example_fs_nested ''/book'' ''/out.epub''
       = Inr [\<lparr>filename = ''mimetype'', compress_type = ZIP_STORED,
                data = ''application/epub+zip''\<rparr>,
              \<lparr>filename = ''META-INF/container.xml'', compress_type = ZIP_DEFLATED, data = ''C''\<rparr>,
              \<lparr>filename = ''OEBPS/content.opf'', compress_type = ZIP_DEFLATED, data = ''O''\<rparr>]"
  by (intro conjI; code_simp)

section \<open>Extracting and packing again\<close>

lemma arcname_parts_names: "x \<in> set (arcname_parts s) \<Longrightarrow> entry_name x"
  by (auto simp: arcname_parts_def entry_name_def valid_name_def dest: split_on_no_sep)

lemma map_fst_update_entry:
  "set (map fst (update_entry k v es)) = insert k (set (map fst es))"
  by (induction es) auto

lemma distinct_update_entry:
  "distinct (map fst es) \<Longrightarrow> distinct (map fst (update_entry k v es))"
proof (induction es)
  case Nil
  show ?case by simp
next
  case (Cons p ps)
  then show ?case
    using map_fst_update_entry[of k v ps] by (auto simp: image_iff)
qed

lemma set_update_entry:
  "(n, x) \<in> set (update_entry k v es) \<Longrightarrow> (n, x) = (k, v) \<or> (n, x) \<in> set es"
  by (induction es) (auto split: if_splits)

lemma wf_update_entry:
  "wf_node (Dir es) \<Longrightarrow> entry_name k \<Longrightarrow> wf_node v \<Longrightarrow> wf_node (Dir (update_entry k v es))"
  by (auto simp: wf_entries_iff distinct_update_entry dest: set_update_entry)

lemma wf_map_of: "wf_node (Dir es) \<Longrightarrow> map_of es c = Some n \<Longrightarrow> wf_node n"
  by (auto simp: wf_entries_iff dest: map_of_SomeD)

text \<open>
  Expanding a file member keeps the tree well-formed, and leaves the files as they
  were, except at the place of the member.
\<close>

lemma expand_file:
  assumes "expand opt cs False d = Inr t"
    and "\<forall>n. opt = Some n \<longrightarrow> wf_node n"
    and "\<forall>x \<in> set cs. entry_name x"
  shows "wf_node t
    \<and> (\<forall>q x. lookup t q = Some (File x) \<longleftrightarrow>
          (q = cs \<and> x = d)
          \<or> (q \<noteq> cs \<and> (case opt of None \<Rightarrow> None | Some n \<Rightarrow> lookup n q) = Some (File x)))
    \<and> (cs \<noteq> [] \<longrightarrow> (\<exists>es. t = Dir es))"
  using assms
proof (induction opt cs "False" d arbitrary: t rule: expand.induct)
  case (1 d)
  then show ?case by (auto elim: lookup.elims)
next
  case (2 old d)
  then show ?case by (auto elim: lookup.elims)
next
  case (3 es d)
  then show ?case by simp
next
  case (4 c cs d)
  from "4.prems"(1) obtain n where n: "expand None cs False d = Inr n" and t: "t = Dir [(c, n)]"
    by (auto split: sum.splits)
  from "4.hyps"[OF n] "4.prems"(3) have ih: "wf_node n"
    "\<And>q x. lookup n q = Some (File x) \<longleftrightarrow> (q = cs \<and> x = d)"
    by auto
  have "lookup t q = Some (File x) \<longleftrightarrow> (q = c # cs \<and> x = d)" for q x
  proof (cases q)
    case Nil
    then show ?thesis by (simp add: t)
  next
    case (Cons c' q')
    then show ?thesis using ih(2)[of q' x] by (auto simp: t)
  qed
  with ih(1) "4.prems"(3) t show ?case by auto
next
  case (5 old c cs d)
  then show ?case by simp
next
  case (6 es c cs d)
  from "6.prems"(1) obtain n where n: "expand (map_of es c) cs False d = Inr n"
    and t: "t = Dir (update_entry c n es)"
    by (auto split: sum.splits)
  from "6.prems"(2) have wes: "wf_node (Dir es)" by simp
  have wo: "\<forall>n. map_of es c = Some n \<longrightarrow> wf_node n"
    using wes wf_map_of by blast
  from "6.hyps"[OF n wo] "6.prems"(3) have ih: "wf_node n"
    "\<And>q x. lookup n q = Some (File x) \<longleftrightarrow>
        (q = cs \<and> x = d)
        \<or> (q \<noteq> cs \<and> (case map_of es c of None \<Rightarrow> None | Some n \<Rightarrow> lookup n q) = Some (File x))"
    by auto
  have w: "wf_node t"
    unfolding t using wes "6.prems"(3) ih(1) by (intro wf_update_entry) auto
  have "lookup t q = Some (File x) \<longleftrightarrow>
      (q = c # cs \<and> x = d) \<or> (q \<noteq> c # cs \<and> lookup (Dir es) q = Some (File x))" for q x
  proof (cases q)
    case Nil
    then show ?thesis by (simp add: t)
  next
    case (Cons c' q')
    show ?thesis
    proof (cases "c' = c")
      case True
      with Cons ih(2)[of q' x] show ?thesis
        by (auto simp: t map_of_update_entry split: option.splits)
    next
      case False
      with Cons show ?thesis by (auto simp: t map_of_update_entry split: option.splits)
    qed
  qed
  with w t show ?case by auto
qed


lemma last_join_with:
  "ps \<noteq> [] \<Longrightarrow> last ps \<noteq> [] \<Longrightarrow> join_with sep ps \<noteq> [] \<and> last (join_with sep ps) = last (last ps)"
  by (induction sep ps rule: join_with.induct) auto

lemma plain_not_dir:
  assumes "plain_member m"
  shows "\<not> is_dir m"
proof -
  let ?ps = "arcname_parts (filename m)"
  from assms have ne: "?ps \<noteq> []" and j: "join_with ''/'' ?ps = filename m"
    by (auto simp: plain_member_def)
  from ne have "last ?ps \<in> set ?ps" by simp
  then have en: "entry_name (last ?ps)" by (rule arcname_parts_names)
  then have l: "last ?ps \<noteq> []" "CHR ''/'' \<notin> set (last ?ps)"
    by (auto simp: entry_name_def valid_name_def)
  from last_join_with[OF ne l(1), of "''/''"] j
  have "filename m \<noteq> []" "last (filename m) = last (last ?ps)" by auto
  moreover have "last (last ?ps) \<noteq> CHR ''/''"
  proof -
    from l(1) have "last (last ?ps) \<in> set (last ?ps)" by simp
    with l(2) show ?thesis by metis
  qed
  ultimately show ?thesis by (simp add: is_dir_def)
qed

lemma find_unique:
  "x \<in> set xs \<Longrightarrow> P x \<Longrightarrow> \<forall>y \<in> set xs. P y \<longrightarrow> y = x \<Longrightarrow> find P xs = Some x"
proof (induction xs)
  case Nil
  then show ?case by simp
next
  case (Cons a xs)
  show ?case
  proof (cases "P a")
    case True
    with Cons.prems(3) have "a = x" by simp
    with True show ?thesis by simp
  next
    case False
    with Cons.prems(1,2) have "x \<in> set xs" by auto
    moreover from Cons.prems(3) have "\<forall>y \<in> set xs. P y \<longrightarrow> y = x" by simp
    ultimately have "find P xs = Some x" using Cons.prems(2) by (intro Cons.IH)
    with False show ?thesis by simp
  qed
qed

lemma getinfo_distinct:
  assumes "distinct (map filename zf)" and "m \<in> set zf"
  shows "getinfo zf (filename m) = Some m"
proof -
  have "\<forall>y \<in> set (rev zf). filename y = filename m \<longrightarrow> y = m"
    using assms by (auto simp: distinct_map inj_on_def)
  with assms(2) show ?thesis
    unfolding getinfo_def by (intro find_unique) auto
qed

lemma extract_names_files:
  assumes "distinct (map filename zf)" and "\<forall>m \<in> set zf. plain_member m"
  shows "set ms \<subseteq> set zf \<Longrightarrow> distinct (map filename ms) \<Longrightarrow> wf_node t \<Longrightarrow> \<exists>es. t = Dir es \<Longrightarrow>
    extract_names zf (map filename ms) t = Inr t' \<Longrightarrow>
    wf_node t' \<and> (\<exists>es. t' = Dir es)
    \<and> (\<forall>q x. lookup t' q = Some (File x) \<longleftrightarrow>
          (\<exists>m \<in> set ms. arcname_parts (filename m) = q \<and> data m = x)
          \<or> (q \<notin> (\<lambda>m. arcname_parts (filename m)) ` set ms \<and> lookup t q = Some (File x)))"
proof (induction ms arbitrary: t)
  case Nil
  then show ?case by simp
next
  case (Cons m ms)
  let ?ps = "arcname_parts (filename m)"
  from Cons.prems(1) have mz: "m \<in> set zf" and sub: "set ms \<subseteq> set zf" by auto
  from mz assms(2) have pm: "plain_member m" by blast
  then have nd: "\<not> is_dir m" by (rule plain_not_dir)
  from pm have ne: "?ps \<noteq> []" by (simp add: plain_member_def)
  have gi: "getinfo zf (filename m) = Some m" using assms(1) mz by (rule getinfo_distinct)
  from Cons.prems(5) gi nd obtain t1 where
    t1: "expand (Some t) ?ps False (data m) = Inr t1"
    and rest: "extract_names zf (map filename ms) t1 = Inr t'"
    by (auto simp: extract_member_def split: sum.splits)
  have names: "\<forall>x \<in> set ?ps. entry_name x" using arcname_parts_names by blast
  have wt: "\<forall>n. Some t = Some n \<longrightarrow> wf_node n" using Cons.prems(3) by simp
  note ef = expand_file[OF t1 wt names]
  from ef have e1: "wf_node t1" by (rule conjunct1)
  from ef have "?ps \<noteq> [] \<longrightarrow> (\<exists>es. t1 = Dir es)" by (elim conjE)
  with ne have e2: "\<exists>es. t1 = Dir es" by (rule rev_mp)
  from ef have e3: "lookup t1 q = Some (File x) \<longleftrightarrow>
        (q = ?ps \<and> x = data m) \<or> (q \<noteq> ?ps \<and> lookup t q = Some (File x))" for q x
    by simp
  note e = e1 e2 e3
  from Cons.prems(2) have dm: "distinct (map filename ms)" and nm: "filename m \<notin> filename ` set ms"
    by auto
  have fresh: "?ps \<notin> (\<lambda>m. arcname_parts (filename m)) ` set ms"
  proof
    assume "?ps \<in> (\<lambda>m. arcname_parts (filename m)) ` set ms"
    then obtain m' where m': "m' \<in> set ms" "arcname_parts (filename m') = ?ps" by auto
    with sub assms(2) have "plain_member m'" by blast
    then have "filename m' = join_with ''/'' (arcname_parts (filename m'))"
      unfolding plain_member_def by (elim conjE) (rule sym)
    also have "\<dots> = join_with ''/'' ?ps" by (simp only: m'(2))
    also from pm have "\<dots> = filename m" unfolding plain_member_def by (elim conjE)
    finally have "filename m' = filename m" .
    with m'(1) have "filename m \<in> filename ` set ms" by (metis imageI)
    with nm show False by contradiction
  qed
  note IH = Cons.IH[OF sub dm e1 e2 rest]
  from IH have ih1: "wf_node t'" by (rule conjunct1)
  from IH have ih2: "\<exists>es. t' = Dir es" by (elim conjE)
  from IH have ih3: "lookup t' q = Some (File x) \<longleftrightarrow>
          (\<exists>m \<in> set ms. arcname_parts (filename m) = q \<and> data m = x)
          \<or> (q \<notin> (\<lambda>m. arcname_parts (filename m)) ` set ms \<and> lookup t1 q = Some (File x))"
    for q x
    by (elim conjE) (erule allE[where x = q], erule allE[where x = x])
  have "lookup t' q = Some (File x) \<longleftrightarrow>
          (\<exists>m' \<in> set (m # ms). arcname_parts (filename m') = q \<and> data m' = x)
          \<or> (q \<notin> (\<lambda>m. arcname_parts (filename m)) ` set (m # ms) \<and> lookup t q = Some (File x))"
    for q x
  proof -
    let ?P = "\<lambda>S. (\<exists>m' \<in> S. arcname_parts (filename m') = q \<and> data m' = x)"
    let ?I = "(\<lambda>m. arcname_parts (filename m)) ` set ms"
    have a: "?P (set (m # ms)) \<longleftrightarrow> (?ps = q \<and> data m = x) \<or> ?P (set ms)" by auto
    have b: "q \<notin> (\<lambda>m. arcname_parts (filename m)) ` set (m # ms) \<longleftrightarrow> q \<noteq> ?ps \<and> q \<notin> ?I"
      by auto
    show ?thesis
      unfolding ih3 e3 a b using fresh by blast
  qed
  with ih1 ih2 show ?case by (intro conjI allI)
qed

lemma dir_files_iff:
  "(q, x) \<in> set (dir_files es) \<longleftrightarrow> (\<exists>c. q = [c] \<and> (c, File x) \<in> set es)"
  by (induction es rule: dir_files.induct) auto

lemma sub_files_iff:
  "(q, x) \<in> set (sub_files es) \<longleftrightarrow>
     (\<exists>c sub q'. q = c # q' \<and> (c, Dir sub) \<in> set es \<and> (q', x) \<in> set (tree_files (Dir sub)))"
proof (induction es rule: dir_files.induct)
  case 1
  show ?case by simp
next
  case (2 name d es)
  then show ?case by simp
next
  case (3 name sub es)
  have "(q, x) \<in> set (map (\<lambda>(rp, d). (name # rp, d)) (tree_files (Dir sub)))
      \<longleftrightarrow> (\<exists>q'. q = name # q' \<and> (q', x) \<in> set (tree_files (Dir sub)))"
    by (auto simp del: tree_files.simps)
  with 3 show ?case
    by (simp del: tree_files.simps) blast
qed

lemma tree_files_lookup_aux:
  "wf_node n \<longrightarrow> (\<forall>q x. (q, x) \<in> set (tree_files n) \<longleftrightarrow> q \<noteq> [] \<and> lookup n q = Some (File x))"
  "\<forall>c n. (c, n) \<in> set (es :: (string \<times> node) list) \<longrightarrow> wf_node n \<longrightarrow>
     (\<forall>q x. (q, x) \<in> set (tree_files n) \<longleftrightarrow> q \<noteq> [] \<and> lookup n q = Some (File x))"
proof (induction n and es rule: tree_files_sub_files.induct)
  case (1 d)
  have "q \<noteq> [] \<Longrightarrow> lookup (File d) q = None" for q by (cases q) simp_all
  then show ?case by auto
next
  case (2 es)
  show ?case
  proof (intro impI allI)
    fix q x
    assume wf: "wf_node (Dir es)"
    then have d: "distinct (map fst es)" and we: "wf_entries es" by simp_all
    have sub_wf: "wf_node n" if "(c, n) \<in> set es" for c n
      using we that by (auto simp: wf_entries_iff)
    have IH: "(q', x') \<in> set (tree_files n) \<longleftrightarrow> q' \<noteq> [] \<and> lookup n q' = Some (File x')"
      if "(c, n) \<in> set es" for c n q' x'
      using 2 that sub_wf[OF that] by blast
    have mo: "map_of es c = Some n" if "(c, n) \<in> set es" for c n
      using d that by simp
    show "(q, x) \<in> set (tree_files (Dir es)) \<longleftrightarrow> q \<noteq> [] \<and> lookup (Dir es) q = Some (File x)"
    proof
      assume "(q, x) \<in> set (tree_files (Dir es))"
      then consider "(q, x) \<in> set (dir_files es)" | "(q, x) \<in> set (sub_files es)" by auto
      then show "q \<noteq> [] \<and> lookup (Dir es) q = Some (File x)"
      proof cases
        case 1
        then obtain c where c: "q = [c]" "(c, File x) \<in> set es" unfolding dir_files_iff by blast
        from mo[OF c(2)] c(1) show ?thesis by simp
      next
        case 2
        then obtain c sub q' where c: "q = c # q'" "(c, Dir sub) \<in> set es"
          "(q', x) \<in> set (tree_files (Dir sub))"
          unfolding sub_files_iff by blast
        from IH[OF c(2)] c(3) have "lookup (Dir sub) q' = Some (File x)" by blast
        with mo[OF c(2)] c(1) show ?thesis by simp
      qed
    next
      assume a: "q \<noteq> [] \<and> lookup (Dir es) q = Some (File x)"
      then obtain c q' where q: "q = c # q'" by (cases q) auto
      with a obtain n where n: "map_of es c = Some n" "lookup n q' = Some (File x)"
        by (auto split: option.splits)
      from n(1) have in_es: "(c, n) \<in> set es" by (rule map_of_SomeD)
      show "(q, x) \<in> set (tree_files (Dir es))"
      proof (cases n)
        case (File d0)
        with n(2) have "q' = []" "x = d0" by (cases q'; simp)+
        with in_es File q have "(q, x) \<in> set (dir_files es)" unfolding dir_files_iff by blast
        then show ?thesis by simp
      next
        case (Dir sub)
        with n(2) have ne: "q' \<noteq> []" by auto
        from IH[OF in_es, of q' x] ne n(2) Dir have "(q', x) \<in> set (tree_files (Dir sub))"
          by blast
        with in_es Dir q have "(q, x) \<in> set (sub_files es)" unfolding sub_files_iff by blast
        then show ?thesis by simp
      qed
    qed
  qed
next
  case 3
  show ?case by simp
next
  case (4 name d es)
  have "q \<noteq> [] \<Longrightarrow> lookup (File d) q = None" for q by (cases q) simp_all
  with 4 show ?case by auto
next
  case (5 name sub es)
  then show ?case by (auto simp del: tree_files.simps)
qed

lemma tree_files_lookup:
  "wf_node n \<Longrightarrow> (q, x) \<in> set (tree_files n) \<longleftrightarrow> q \<noteq> [] \<and> lookup n q = Some (File x)"
  using tree_files_lookup_aux(1) by blast

lemma expand_dir:
  assumes "expand opt cs False d = Inr t" and "lookup t q = Some (Dir sub)"
  shows "strict_prefix q cs
    \<or> (\<exists>sub'. (case opt of None \<Rightarrow> None | Some n \<Rightarrow> lookup n q) = Some (Dir sub'))"
  using assms
proof (induction opt cs "False" d arbitrary: t q rule: expand.induct)
  case (1 d)
  then show ?case by (cases q) auto
next
  case (2 old d)
  then show ?case by (cases q) auto
next
  case (3 es d)
  then show ?case by simp
next
  case (4 c cs d)
  from "4.prems"(1) obtain n where n: "expand None cs False d = Inr n" and t: "t = Dir [(c, n)]"
    by (auto split: sum.splits)
  show ?case
  proof (cases q)
    case Nil
    then show ?thesis by simp
  next
    case (Cons c' q')
    with "4.prems"(2) t have "c' = c" "lookup n q' = Some (Dir sub)"
      by (auto split: if_splits)
    with "4.hyps"[OF n this(2)] Cons show ?thesis by simp
  qed
next
  case (5 old c cs d)
  then show ?case by simp
next
  case (6 es c cs d)
  from "6.prems"(1) obtain n where n: "expand (map_of es c) cs False d = Inr n"
    and t: "t = Dir (update_entry c n es)"
    by (auto split: sum.splits)
  show ?case
  proof (cases q)
    case Nil
    then show ?thesis by simp
  next
    case (Cons c' q')
    show ?thesis
    proof (cases "c' = c")
      case True
      with "6.prems"(2) t Cons have "lookup n q' = Some (Dir sub)"
        by (simp add: map_of_update_entry)
      from "6.hyps"[OF n this] True Cons show ?thesis
        by (auto split: option.splits)
    next
      case False
      with "6.prems"(2) t Cons show ?thesis
        by (simp add: map_of_update_entry)
    qed
  qed
qed

lemma extract_names_dirs:
  assumes "distinct (map filename zf)" and "\<forall>m \<in> set zf. plain_member m"
  shows "set ms \<subseteq> set zf \<Longrightarrow> extract_names zf (map filename ms) t = Inr t' \<Longrightarrow>
    lookup t' q = Some (Dir sub) \<Longrightarrow>
    (\<exists>m \<in> set ms. strict_prefix q (arcname_parts (filename m)))
    \<or> (\<exists>sub'. lookup t q = Some (Dir sub'))"
proof (induction ms arbitrary: t)
  case Nil
  then show ?case by simp
next
  case (Cons m ms)
  let ?ps = "arcname_parts (filename m)"
  from Cons.prems(1) have mz: "m \<in> set zf" and sub: "set ms \<subseteq> set zf" by auto
  from mz assms(2) have "plain_member m" by blast
  then have nd: "\<not> is_dir m" by (rule plain_not_dir)
  have gi: "getinfo zf (filename m) = Some m" using assms(1) mz by (rule getinfo_distinct)
  from Cons.prems(2) gi nd obtain t1 where
    t1: "expand (Some t) ?ps False (data m) = Inr t1"
    and rest: "extract_names zf (map filename ms) t1 = Inr t'"
    by (auto simp: extract_member_def split: sum.splits)
  from Cons.IH[OF sub rest Cons.prems(3)]
  consider "\<exists>m \<in> set ms. strict_prefix q (arcname_parts (filename m))"
    | sub1 where "lookup t1 q = Some (Dir sub1)"
    by blast
  then show ?case
  proof cases
    case 1
    then show ?thesis by auto
  next
    case 2
    from expand_dir[OF t1 2] show ?thesis by auto
  qed
qed

lemma locate_no_dotdot:
  "''..'' \<notin> set cs \<Longrightarrow> locate r l cs = Some L \<Longrightarrow> L = l @ cs"
proof (induction cs arbitrary: l)
  case Nil
  then show ?case by (auto split: option.splits)
next
  case (Cons c cs)
  from Cons.prems(1) have c: "c \<noteq> ''..''" and nd: "''..'' \<notin> set cs" by auto
  from Cons.prems(2) c have "locate r (l @ [c]) cs = Some L"
    by (auto split: option.splits node.splits)
  from Cons.IH[OF nd this] show ?case by simp
qed

lemma mkdirs_existing:
  "locate r l cs = Some L \<Longrightarrow> lookup r L = Some (Dir es) \<Longrightarrow> mkdirs r l cs = Inr (r, L)"
proof (induction cs arbitrary: l)
  case Nil
  then show ?case by (auto split: option.splits)
next
  case (Cons c cs)
  from Cons.prems(1) obtain es0 where es0: "lookup r l = Some (Dir es0)"
    by (auto split: option.splits node.splits)
  show ?case
  proof (cases "c = ''..''")
    case True
    with Cons es0 show ?thesis by simp
  next
    case False
    with Cons.prems(1) es0 obtain n where n: "map_of es0 c = Some n"
      and loc: "locate r (l @ [c]) cs = Some L"
      by (auto split: option.splits)
    have "\<exists>sub. n = Dir sub"
    proof (cases n)
      case (File d)
      with n es0 have f: "lookup r (l @ [c]) = Some (File d)" by (simp add: lookup_snoc)
      show ?thesis
      proof (cases cs)
        case Nil
        with loc have "L = l @ [c]" by (auto split: option.splits)
        with f Cons.prems(2) show ?thesis by simp
      next
        case (Cons c2 cs2)
        with loc f show ?thesis by simp
      qed
    next
      case (Dir sub)
      then show ?thesis by blast
    qed
    then obtain sub where "n = Dir sub" by blast
    with False es0 n Cons.IH[OF loc Cons.prems(2)] show ?thesis by simp
  qed
qed

lemma mkdirs_from_empty:
  "''..'' \<notin> set cs \<Longrightarrow> lookup r l = Some (Dir []) \<Longrightarrow> mkdirs r l cs = Inr (r1, L1) \<Longrightarrow>
   L1 = l @ cs \<and> lookup r1 L1 = Some (Dir [])"
proof (induction cs arbitrary: r l)
  case Nil
  then show ?case by simp
next
  case (Cons c cs)
  let ?r2 = "put r (l @ [c]) (Dir [])"
  from Cons.prems(1) have c: "c \<noteq> ''..''" and nd: "''..'' \<notin> set cs" by auto
  from Cons.prems(2,3) c have m: "mkdirs ?r2 (l @ [c]) cs = Inr (r1, L1)" by simp
  have "lookup ?r2 ((l @ [c]) @ []) = lookup (Dir []) []"
    using Cons.prems(2) by (intro lookup_put_same) simp
  then have e: "lookup ?r2 (l @ [c]) = Some (Dir [])" by simp
  from Cons.IH[OF nd e m] show ?case by auto
qed

lemma mkdirs_absent:
  "''..'' \<notin> set cs \<Longrightarrow> locate r l cs = None \<Longrightarrow> mkdirs r l cs = Inr (r1, L1) \<Longrightarrow>
   L1 = l @ cs \<and> lookup r1 L1 = Some (Dir [])"
proof (induction cs arbitrary: r l)
  case Nil
  then show ?case by (auto split: option.splits node.splits)
next
  case (Cons c cs)
  from Cons.prems(3) obtain es0 where es0: "lookup r l = Some (Dir es0)"
    by (auto split: option.splits node.splits)
  from Cons.prems(1) have c: "c \<noteq> ''..''" and nd: "''..'' \<notin> set cs" by auto
  show ?case
  proof (cases "map_of es0 c")
    case None
    let ?r2 = "put r (l @ [c]) (Dir [])"
    from Cons.prems(3) es0 c None have m: "mkdirs ?r2 (l @ [c]) cs = Inr (r1, L1)" by simp
    have "lookup ?r2 ((l @ [c]) @ []) = lookup (Dir []) []"
      using es0 by (intro lookup_put_same) simp
    then have e: "lookup ?r2 (l @ [c]) = Some (Dir [])" by simp
    from mkdirs_from_empty[OF nd e m] show ?thesis by auto
  next
    case (Some n)
    with Cons.prems(3) es0 c obtain sub where n: "n = Dir sub"
      and m: "mkdirs r (l @ [c]) cs = Inr (r1, L1)"
      by (cases n) auto
    from Cons.prems(2) es0 c Some have "locate r (l @ [c]) cs = None" by simp
    from Cons.IH[OF nd this m] show ?thesis by auto
  qed
qed

lemma fresh_after_mkdir:
  assumes "fresh_target fs p" and "mkdir_parents fs p = Inr fs1"
    and "stat fs1 p = Some (Dir es0)"
  shows "es0 = []"
proof -
  let ?r = "fs_root fs" and ?s = "start_of fs p"
  from assms(2) obtain r1 L1 where mk: "mkdirs ?r ?s (parts p) = Inr (r1, L1)"
    and fs1: "fs1 = fs\<lparr>fs_root := r1\<rparr>"
    by (auto simp: mkdir_parents_def split: sum.splits)
  from mk obtain es where st: "lookup ?r ?s = Some (Dir es)"
    by (cases "parts p") (auto split: option.splits node.splits)
  from assms(1) consider "stat fs p = Some (Dir [])"
    | "stat fs p = None" "''..'' \<notin> set (parts p)"
    by (auto simp: fresh_target_def)
  then show ?thesis
  proof cases
    case 1
    then obtain L where L: "locate ?r ?s (parts p) = Some L" "lookup ?r L = Some (Dir [])"
      using st by (auto simp: stat_def resolve_def split: option.splits)
    from mkdirs_existing[OF L] mk have "r1 = ?r" by simp
    with fs1 have "fs1 = fs" by simp
    with 1 assms(3) show ?thesis by simp
  next
    case 2
    have "locate ?r ?s (parts p) = None"
    proof (cases "locate ?r ?s (parts p)")
      case None
      then show ?thesis .
    next
      case (Some L)
      with locate_exists[OF Some] st 2(1) show ?thesis
        by (auto simp: stat_def resolve_def)
    qed
    from mkdirs_absent[OF 2(2) this mk] have L1: "L1 = ?s @ parts p" "lookup r1 L1 = Some (Dir [])"
      by auto
    have s1: "start_of fs1 p = ?s" and r1: "fs_root fs1 = r1" by (simp_all add: fs1 start_of_def)
    from assms(3) obtain L where L: "locate r1 ?s (parts p) = Some L" "lookup r1 L = Some (Dir es0)"
      unfolding stat_def resolve_def s1 r1 by (auto split: option.splits node.splits)
    from locate_no_dotdot[OF 2(2) L(1)] L1 L(2) show ?thesis by simp
  qed
qed

lemma arcname_parts_mimetype: "arcname_parts ''mimetype'' = [''mimetype'']"
  by code_simp

lemma lookup_empty_dir: "lookup (Dir []) q = Some n \<Longrightarrow> q = [] \<and> n = Dir []"
  by (cases q) auto

text \<open>
  The directory a successful extraction into a fresh target leaves behind: a
  well-formed directory whose files are the members of the archive, and which has
  directories only above members.
\<close>

lemma extract_epub_tree:
  assumes "plain_archive epub" and "fresh_target fs (parse_path output_dir)"
    and "extract_epub ET_parse fs epub output_dir = Inr (info, fs')"
  shows "\<exists>es. stat fs' (parse_path output_dir) = Some (Dir es) \<and> wf_node (Dir es)
    \<and> (\<forall>q x. lookup (Dir es) q = Some (File x) \<longleftrightarrow>
          (\<exists>m \<in> set epub. arcname_parts (filename m) = q \<and> data m = x))
    \<and> (\<forall>q sub. lookup (Dir es) q = Some (Dir sub) \<longrightarrow> q \<noteq> [] \<longrightarrow>
          (\<exists>m \<in> set epub. strict_prefix q (arcname_parts (filename m))))"
proof -
  let ?op = "parse_path output_dir"
  from assms(1) have dist: "distinct (map filename epub)"
    and plain: "\<forall>m \<in> set epub. plain_member m"
    by (auto simp: plain_archive_def list_all_iff)
  from assms(3) obtain fs1 where mk: "mkdir_parents fs ?op = Inr fs1"
    and ex: "extractall fs1 ?op epub = Inr fs'"
    by (auto simp: extract_epub_def Let_def split: sum.splits if_splits option.splits)
  let ?r1 = "fs_root fs1"
  from ex obtain L es0 t where L: "resolve fs1 ?op = Some L"
    and l0: "lookup ?r1 L = Some (Dir es0)"
    and en: "extract_names epub (map filename epub) (Dir es0) = Inr t"
    and fs': "fs' = fs1\<lparr>fs_root := put ?r1 L t\<rparr>"
    by (auto simp: extractall_def split: option.splits node.splits sum.splits)
  from L l0 have "stat fs1 ?op = Some (Dir es0)" by (simp add: stat_def)
  with assms(2) mk have "es0 = []" by (rule fresh_after_mkdir)
  with l0 en have l0: "lookup ?r1 L = Some (Dir [])"
    and en: "extract_names epub (map filename epub) (Dir []) = Inr t"
    by simp_all
  have w0: "wf_node (Dir [])" by simp
  have d0: "\<exists>es. Dir [] = Dir es" by simp
  note F = extract_names_files[OF dist plain subset_refl dist w0 d0 en]
  from F have wt: "wf_node t" by (rule conjunct1)
  from F obtain es where t: "t = Dir es" by blast
  from F have files0: "lookup t q = Some (File x) \<longleftrightarrow>
          (\<exists>m \<in> set epub. arcname_parts (filename m) = q \<and> data m = x)
          \<or> (q \<notin> (\<lambda>m. arcname_parts (filename m)) ` set epub \<and> lookup (Dir []) q = Some (File x))"
    for q x
    by (elim conjE) (erule allE[where x = q], erule allE[where x = x])
  have files: "lookup t q = Some (File x) \<longleftrightarrow>
          (\<exists>m \<in> set epub. arcname_parts (filename m) = q \<and> data m = x)" for q x
    unfolding files0 using lookup_empty_dir[of q "File x"] by blast
  have dirs: "\<exists>m \<in> set epub. strict_prefix q (arcname_parts (filename m))"
    if "lookup t q = Some (Dir sub)" "q \<noteq> []" for q sub
  proof -
    from extract_names_dirs[OF dist plain subset_refl en that(1)]
    consider "\<exists>m \<in> set epub. strict_prefix q (arcname_parts (filename m))"
      | sub' where "lookup (Dir []) q = Some (Dir sub')"
      by blast
    then show ?thesis
    proof cases
      case 1
      then show ?thesis .
    next
      case 2
      with lookup_empty_dir[OF 2] that(2) show ?thesis by simp
    qed
  qed
  let ?r' = "put ?r1 L t"
  have kd: "kind ?r' q = kind ?r1 q" if "lookup ?r1 q \<noteq> None" for q
  proof (rule kind_put)
    show "lookup ?r1 (L @ [c]) = None" for c using l0 by (simp add: lookup_snoc)
    show "lookup ?r1 L = None \<or> kind ?r1 L = Some (is_dir_node t)"
      using l0 t by (simp add: kind_def)
    show "lookup ?r1 q \<noteq> None" by (rule that)
  qed
  let ?s = "start_of fs1 ?op"
  from L obtain es1 where s1: "lookup ?r1 ?s = Some (Dir es1)"
    and loc: "locate ?r1 ?s (parts ?op) = Some L"
    by (auto simp: resolve_def split: option.splits node.splits)
  from s1 kd[of ?s] have "kind ?r' ?s = Some True" by (simp add: kind_def)
  then obtain es1' where s1': "lookup ?r' ?s = Some (Dir es1')"
    by (auto simp: kind_def elim: is_dir_node.elims)
  have loc': "locate ?r' ?s (parts ?op) = Some L"
    by (rule locate_kind[where r = ?r1, OF kd loc])
  have "L = [] \<or> (\<exists>es. lookup ?r1 (butlast L) = Some (Dir es))"
    using l0 lookup_butlast_dir[of ?r1 L] by blast
  from lookup_put_same[OF this, of t "[]"] have new: "lookup ?r' L = Some t" by simp
  have ss: "start_of fs' ?op = ?s" and rr: "fs_root fs' = ?r'"
    by (simp_all add: fs' start_of_def)
  have st: "stat fs' ?op = Some (Dir es)"
    unfolding stat_def resolve_def ss rr using s1' loc' new t by simp
  show ?thesis
  proof (intro exI[where x = es] conjI allI impI)
    show "stat fs' ?op = Some (Dir es)" by (rule st)
    show "wf_node (Dir es)" using wt by (simp only: t)
    show "lookup (Dir es) q = Some (File x) \<longleftrightarrow>
          (\<exists>m \<in> set epub. arcname_parts (filename m) = q \<and> data m = x)" for q x
      using files[of q x] by (simp only: t)
    show "\<exists>m \<in> set epub. strict_prefix q (arcname_parts (filename m))"
      if "lookup (Dir es) q = Some (Dir sub)" "q \<noteq> []" for q sub
    proof -
      from that(1) have "lookup t q = Some (Dir sub)" by (simp only: t)
      from dirs[OF this that(2)] show ?thesis .
    qed
  qed
qed

text \<open>
  C1, as stated, fails on archives that store directories: the packer writes files
  only. The example book with a member for the directory \<^verbatim>\<open>META-INF/\<close>, extracted
  into the fresh directory \<^verbatim>\<open>/tmp/x\<close> and packed again into \<^verbatim>\<open>/tmp/out.epub\<close>, has
  lost that member.
\<close>

theorem pack_extract_counterexample:
  "(case extract_epub example_parse example_fs
           (\<lparr>filename = ''META-INF/'', compress_type = ZIP_STORED, data = []\<rparr> # example_epub)
           ''/tmp/x'' of
      Inl e \<Rightarrow> False
    | Inr (info, fs') \<Rightarrow>
        (case pack_epub example_partial fs' (info_extract_dir info) ''/tmp/out.epub'' of
           Inl e \<Rightarrow> False
         | Inr zf \<Rightarrow>
             (''META-INF/'', []) \<notin> entry_set zf
             \<and> entry_set zf
                 \<noteq> entry_set (\<lparr>filename = ''META-INF/'', compress_type = ZIP_STORED, data = []\<rparr>
                                # example_epub)))"
  by code_simp

text \<open>
  The archive file matters as well. The example book itself, extracted into
  \<^verbatim>\<open>/tmp/x\<close>: packed into an archive file inside that directory, the new archive has
  the archive file as one more member; packed into a file in a directory that does not
  exist, the packer fails.
\<close>

lemma pack_extract_output_inside:
  "(case extract_epub example_parse example_fs example_epub ''/tmp/x'' of
      Inl e \<Rightarrow> False
    | Inr (info, fs') \<Rightarrow>
        (case pack_epub example_partial fs' (info_extract_dir info) ''/tmp/x/out.epub'' of
           Inl e \<Rightarrow> False
         | Inr zf \<Rightarrow>
             ''out.epub'' \<in> filename ` set zf
             \<and> entry_set zf \<noteq> entry_set example_epub))"
  by code_simp

lemma pack_extract_output_unopenable:
  "(case extract_epub example_parse example_fs example_epub ''/tmp/x'' of
      Inl e \<Rightarrow> False
    | Inr (info, fs') \<Rightarrow>
        pack_epub example_partial fs' (info_extract_dir info) ''/none/out.epub'' = Inl OSError)"
  by code_simp

text \<open>
  C1, amended. Let the archive be plain: its members are files under normalised
  relative names, no name occurs twice, and \<^verbatim>\<open>mimetype\<close> is a first or last name
  component of the top-level member \<^verbatim>\<open>mimetype\<close> only. Let it be extracted
  successfully into a fresh target directory, and let the archive file of the packer be
  one that can be opened for writing and that is not the extracted directory nor lies
  below it. Then packing the directory the extractor reports succeeds, the archive
  produced has the entry set (names and byte contents) of the original, and if the
  original has a member \<^verbatim>\<open>mimetype\<close>, the first member of the new archive is
  \<^verbatim>\<open>mimetype\<close>, stored, with the same bytes.
\<close>

theorem pack_extract_roundtrip:
  assumes "plain_archive epub" and "fresh_target fs (parse_path output_dir)"
    and "extract_epub ET_parse fs epub output_dir = Inr (info, fs')"
    and "open_output fs' output_path = Inr (fs1, out)"
    and "\<not> below fs' (parse_path (info_extract_dir info)) out"
  shows "\<exists>zf. pack_epub ZIP_partial fs' (info_extract_dir info) output_path = Inr zf
           \<and> entry_set zf = entry_set epub
           \<and> (\<forall>d. (''mimetype'', d) \<in> entry_set epub \<longrightarrow>
                 zf \<noteq> []
                 \<and> hd zf = \<lparr>filename = ''mimetype'', compress_type = ZIP_STORED, data = d\<rparr>)"
proof -
  let ?op = "parse_path output_dir"
  let ?parts = "\<lambda>m. arcname_parts (filename m)"
  from assms(1) have plain: "\<And>m. m \<in> set epub \<Longrightarrow> plain_member m"
    and mime: "\<And>m. m \<in> set epub \<Longrightarrow> filename m = ''mimetype''
                \<or> (last (?parts m) \<noteq> ''mimetype'' \<and> hd (?parts m) \<noteq> ''mimetype'')"
    by (auto simp: plain_archive_def list_all_iff)
  have nm: "join_with ''/'' (?parts m) = filename m" and ne: "?parts m \<noteq> []"
    if "m \<in> set epub" for m
    using plain[OF that] by (simp_all add: plain_member_def)
  from extract_epub_tree[OF assms(1,2,3)] obtain es where
    st: "stat fs' ?op = Some (Dir es)" and wf: "wf_node (Dir es)"
    and files0: "\<forall>q x. lookup (Dir es) q = Some (File x) \<longleftrightarrow>
        (\<exists>m \<in> set epub. ?parts m = q \<and> data m = x)"
    and dirs0: "\<forall>q sub. lookup (Dir es) q = Some (Dir sub) \<longrightarrow> q \<noteq> [] \<longrightarrow>
        (\<exists>m \<in> set epub. strict_prefix q (?parts m))"
    by (elim exE conjE)
  have files: "lookup (Dir es) q = Some (File x) \<longleftrightarrow>
        (\<exists>m \<in> set epub. ?parts m = q \<and> data m = x)" for q x
    using files0 by (elim allE)
  have dirs: "\<exists>m \<in> set epub. strict_prefix q (?parts m)"
    if "lookup (Dir es) q = Some (Dir sub)" "q \<noteq> []" for q sub
    using dirs0 that by (elim allE impE)
  from assms(3) have dir: "info_extract_dir info = str_path ?op"
    by (auto elim: extract_epub_info)
  have src: "parse_path (info_extract_dir info) = ?op"
    by (simp add: dir parse_str_path wf_parse_path)
  have nonempty: "info_extract_dir info \<noteq> []"
    by (simp add: dir str_path_not_Nil wf_parse_path)
  let ?files = "filter (\<lambda>f. last (fst f) \<noteq> ''mimetype'') (tree_files (Dir es))"
  let ?walk = "map deflated_member ?files"
  let ?zf = "mimetype_member (Dir es) @ ?walk"
  text \<open>the archive file lies outside the directory, which is as the extractor left it\<close>
  from st obtain l where r: "resolve fs' ?op = Some l"
    and lk: "lookup (fs_root fs') l = Some (Dir es)"
    by (auto simp: stat_def split: option.splits)
  from assms(5) r have np: "\<not> prefix l out" by (simp add: src below_def)
  note keep = open_output_keeps[OF assms(4) r lk np]
  have out1: "l @ q \<noteq> out" for q using np by auto
  have f: "first_member ZIP_partial out l (Dir es) = Inr (mimetype_member (Dir es))"
    using out1 by (rule first_member_outside)
  have am: "add_members ZIP_partial out l ?files (mimetype_member (Dir es)) = Inr ?zf"
    using out1 by (intro add_members_outside) simp
  have "pack_epub ZIP_partial fs' (info_extract_dir info) output_path
      = (case first_member ZIP_partial out l (Dir es) of
           Inl e \<Rightarrow> Inl e
         | Inr first \<Rightarrow> add_members ZIP_partial out l ?files first)"
    using nonempty assms(4) keep[folded src] wf by (rule pack_epub_members)
  also have "\<dots> = Inr ?zf" by (simp only: f am sum.case)
  finally have pack: "pack_epub ZIP_partial fs' (info_extract_dir info) output_path = Inr ?zf" .
  text \<open>no directory is called \<^verbatim>\<open>mimetype\<close> at the top\<close>
  have nodir: "lookup (Dir es) [''mimetype''] \<noteq> Some (Dir sub)" for sub
  proof
    assume "lookup (Dir es) [''mimetype''] = Some (Dir sub)"
    from dirs[OF this] obtain m where m: "m \<in> set epub" "strict_prefix [''mimetype''] (?parts m)"
      by auto
    from m(2) obtain ys where ys: "?parts m = ''mimetype'' # ys" "ys \<noteq> []"
      by (auto simp: strict_prefix_def prefix_def)
    with mime[OF m(1)] have "filename m = ''mimetype''" by auto
    with ys arcname_parts_mimetype show False by simp
  qed
  have mm: "mimetype_member (Dir es)
      = [\<lparr>filename = ''mimetype'', compress_type = ZIP_STORED, data = d\<rparr>]"
    if "m \<in> set epub" "filename m = ''mimetype''" "data m = d" for m d
  proof -
    from that arcname_parts_mimetype have "?parts m = [''mimetype'']" by simp
    with that(1,3) have "\<exists>m \<in> set epub. ?parts m = [''mimetype''] \<and> data m = d" by blast
    then have "lookup (Dir es) [''mimetype''] = Some (File d)" by (simp only: files)
    then show ?thesis by (simp add: mimetype_member_def)
  qed
  have walk_in: "(filename m, data m) \<in> entry_set ?walk"
    if "m \<in> set epub" "filename m \<noteq> ''mimetype''" for m
  proof -
    from mime[OF that(1)] that(2) have l: "last (?parts m) \<noteq> ''mimetype''" by simp
    from that(1) have "lookup (Dir es) (?parts m) = Some (File (data m))"
      unfolding files by blast
    with ne[OF that(1)] have "(?parts m, data m) \<in> set (tree_files (Dir es))"
      by (simp only: tree_files_lookup[OF wf]) simp
    with l have "deflated_member (?parts m, data m) \<in> set ?walk"
      by (auto simp del: tree_files.simps)
    moreover have "(\<lambda>m. (filename m, data m)) (deflated_member (?parts m, data m))
        = (filename m, data m)"
      by (simp add: deflated_member_def nm[OF that(1)])
    ultimately show ?thesis
      unfolding entry_set_def set_map by (metis (no_types, lifting) imageI)
  qed
  have walk_sub: "e \<in> entry_set epub" if "e \<in> entry_set ?walk" for e
  proof -
    from that obtain rp x where f: "(rp, x) \<in> set (tree_files (Dir es))"
      and e: "e = (join_with ''/'' rp, x)"
      by (auto simp: entry_set_def deflated_member_def simp del: tree_files.simps)
    from f have "lookup (Dir es) rp = Some (File x)"
      by (simp only: tree_files_lookup[OF wf])
    then obtain m where m: "m \<in> set epub" "?parts m = rp" "data m = x"
      unfolding files by blast
    with nm[OF m(1)] e have "e = (filename m, data m)" by simp
    with m(1) show ?thesis by (auto simp: entry_set_def)
  qed
  have mime_sub: "e \<in> entry_set epub" if "e \<in> entry_set (mimetype_member (Dir es))" for e
  proof (cases "lookup (Dir es) [''mimetype'']")
    case None
    with that show ?thesis by (simp add: mimetype_member_def entry_set_def)
  next
    case (Some n)
    with nodir obtain d where n: "n = File d" by (cases n) auto
    with Some that have e: "e = (''mimetype'', d)"
      by (simp add: mimetype_member_def entry_set_def)
    from Some n have "lookup (Dir es) [''mimetype''] = Some (File d)" by simp
    then obtain m where m: "m \<in> set epub" "?parts m = [''mimetype'']" "data m = d"
      unfolding files by blast
    from nm[OF m(1)] m(2) have "filename m = ''mimetype''" by simp
    with m(3) e have "e = (\<lambda>m. (filename m, data m)) m" by simp
    then show ?thesis
      unfolding entry_set_def set_map using m(1) by (rule image_eqI)
  qed
  have split: "entry_set ?zf = entry_set (mimetype_member (Dir es)) \<union> entry_set ?walk"
    by (simp add: entry_set_def del: tree_files.simps)
  have eq: "entry_set ?zf = entry_set epub"
  proof (intro equalityI subsetI)
    fix e assume "e \<in> entry_set ?zf"
    with split mime_sub walk_sub show "e \<in> entry_set epub" by blast
  next
    fix e assume "e \<in> entry_set epub"
    then obtain m where m: "m \<in> set epub" "e = (filename m, data m)"
      by (auto simp: entry_set_def)
    show "e \<in> entry_set ?zf"
    proof (cases "filename m = ''mimetype''")
      case True
      from mm[OF m(1) True refl] True m(2) have "e \<in> entry_set (mimetype_member (Dir es))"
        by (simp add: entry_set_def)
      with split show ?thesis by blast
    next
      case False
      from walk_in[OF m(1) False] m(2) split show ?thesis by blast
    qed
  qed
  have first: "?zf \<noteq> []
      \<and> hd ?zf = \<lparr>filename = ''mimetype'', compress_type = ZIP_STORED, data = d\<rparr>"
    if "(''mimetype'', d) \<in> entry_set epub" for d
  proof -
    from that obtain m where "m \<in> set epub" "filename m = ''mimetype''" "data m = d"
      by (auto simp: entry_set_def)
    from mm[OF this] show ?thesis by (simp del: tree_files.simps)
  qed
  show ?thesis
    by (rule exI[where x = ?zf]) (intro conjI allI impI pack eq; (drule first)?; simp del: tree_files.simps)
qed

lemma example_plain: "plain_archive example_epub"
  by code_simp

lemma example_fresh: "fresh_target example_fs (parse_path ''/tmp/x'')"
  by code_simp

lemma example_has_mimetype: "(''mimetype'', ''application/epub+zip'') \<in> entry_set example_epub"
  by code_simp

lemma example_open_x:
  "open_output (snd (projr (extract_epub example_parse example_fs example_epub ''/tmp/x'')))
     ''/tmp/out.epub''
     = Inr (fst (projr (open_output
                   (snd (projr (extract_epub example_parse example_fs example_epub ''/tmp/x'')))
                   ''/tmp/out.epub'')),
            [''tmp'', ''out.epub''])"
  by code_simp

lemma example_outside_x:
  "\<not> below (snd (projr (extract_epub example_parse example_fs example_epub ''/tmp/x'')))
       (parse_path (info_extract_dir
          \<lparr>info_extract_dir = ''/tmp/x'', info_opf_path = ''OEBPS/content.opf'',
           info_opf_full_path = ''/tmp/x/OEBPS/content.opf''\<rparr>))
       [''tmp'', ''out.epub'']"
  by code_simp

theorem pack_extract_roundtrip_witness:
  "plain_archive example_epub
   \<and> fresh_target example_fs (parse_path ''/tmp/x'')
   \<and> (\<exists>info fs'.
         extract_epub example_parse example_fs example_epub ''/tmp/x'' = Inr (info, fs')
       \<and> (\<exists>fs1 out. open_output fs' ''/tmp/out.epub'' = Inr (fs1, out)
              \<and> \<not> below fs' (parse_path (info_extract_dir info)) out)
       \<and> (\<exists>zf. pack_epub example_partial fs' (info_extract_dir info) ''/tmp/out.epub'' = Inr zf
              \<and> entry_set zf = entry_set example_epub
              \<and> hd zf = \<lparr>filename = ''mimetype'', compress_type = ZIP_STORED,
                          data = ''application/epub+zip''\<rparr>))"
proof -
  from pack_extract_roundtrip[OF example_plain example_fresh example_extract_x example_open_x
      example_outside_x, of example_partial]
  obtain zf where zf:
    "pack_epub example_partial
       (snd (projr (extract_epub example_parse example_fs example_epub ''/tmp/x'')))
       (info_extract_dir \<lparr>info_extract_dir = ''/tmp/x'', info_opf_path = ''OEBPS/content.opf'',
          info_opf_full_path = ''/tmp/x/OEBPS/content.opf''\<rparr>) ''/tmp/out.epub'' = Inr zf"
    "entry_set zf = entry_set example_epub"
    "\<forall>d. (''mimetype'', d) \<in> entry_set example_epub \<longrightarrow>
       zf \<noteq> [] \<and> hd zf = \<lparr>filename = ''mimetype'', compress_type = ZIP_STORED, data = d\<rparr>"
    by (elim exE conjE)
  from zf(3) example_has_mimetype
  have "hd zf = \<lparr>filename = ''mimetype'', compress_type = ZIP_STORED,
                  data = ''application/epub+zip''\<rparr>"
    by (elim allE impE conjE)
  with zf(1,2) example_extract_x example_plain example_fresh example_open_x example_outside_x
  show ?thesis
    by (intro conjI exI)
qed

section \<open>The two manifest readers\<close>

lemma expand_is_dir: "expand (Some (Dir es)) cs isdir d = Inr n \<Longrightarrow> is_dir_node n"
  by (cases cs) (auto split: if_splits sum.splits)

lemma extract_names_is_dir:
  "is_dir_node target \<Longrightarrow> extract_names zf names target = Inr t \<Longrightarrow> is_dir_node t"
proof (induction names arbitrary: target)
  case Nil
  then show ?case by simp
next
  case (Cons name names)
  from Cons.prems(1) obtain es where es: "target = Dir es" by (cases target) auto
  from Cons.prems(2) obtain m target' where m: "getinfo zf name = Some m"
    and e: "extract_member target m = Inr target'"
    and r: "extract_names zf names target' = Inr t"
    by (auto split: option.splits sum.splits)
  from e es have "is_dir_node target'"
    by (auto simp: extract_member_def intro: expand_is_dir)
  from Cons.IH[OF this r] show ?case .
qed

text \<open>
  A successful extraction into a fresh target leaves there the directory that the
  members build up from the empty directory, whatever the target is.
\<close>

lemma extract_epub_target:
  assumes "fresh_target fs (parse_path output_dir)"
    and "extract_epub ET_parse fs epub output_dir = Inr (info, fs')"
  obtains l t where "extract_names epub (map filename epub) (Dir []) = Inr t" "is_dir_node t"
    "resolve fs' (parse_path output_dir) = Some l" "lookup (fs_root fs') l = Some t"
proof -
  let ?op = "parse_path output_dir"
  from assms(2) obtain fs1 where mk: "mkdir_parents fs ?op = Inr fs1"
    and ex: "extractall fs1 ?op epub = Inr fs'"
    by (auto simp: extract_epub_def Let_def split: sum.splits if_splits option.splits)
  let ?r1 = "fs_root fs1"
  from ex obtain L es0 t where L: "resolve fs1 ?op = Some L"
    and l0: "lookup ?r1 L = Some (Dir es0)"
    and en: "extract_names epub (map filename epub) (Dir es0) = Inr t"
    and fs': "fs' = fs1\<lparr>fs_root := put ?r1 L t\<rparr>"
    by (auto simp: extractall_def split: option.splits node.splits sum.splits)
  from L l0 have "stat fs1 ?op = Some (Dir es0)" by (simp add: stat_def)
  with assms(1) mk have "es0 = []" by (rule fresh_after_mkdir)
  with l0 en have l0: "lookup ?r1 L = Some (Dir [])"
    and en: "extract_names epub (map filename epub) (Dir []) = Inr t"
    by simp_all
  have td: "is_dir_node t" using en by (intro extract_names_is_dir[OF _ en]) simp
  let ?r' = "put ?r1 L t"
  have kd: "kind ?r' q = kind ?r1 q" if "lookup ?r1 q \<noteq> None" for q
  proof (rule kind_put)
    show "lookup ?r1 (L @ [c]) = None" for c using l0 by (simp add: lookup_snoc)
    show "lookup ?r1 L = None \<or> kind ?r1 L = Some (is_dir_node t)"
      using l0 td by (simp add: kind_def)
    show "lookup ?r1 q \<noteq> None" by (rule that)
  qed
  let ?s = "start_of fs1 ?op"
  from L obtain es1 where s1: "lookup ?r1 ?s = Some (Dir es1)"
    and loc: "locate ?r1 ?s (parts ?op) = Some L"
    by (auto simp: resolve_def split: option.splits node.splits)
  from s1 kd[of ?s] have "kind ?r' ?s = Some True" by (simp add: kind_def)
  then obtain es1' where s1': "lookup ?r' ?s = Some (Dir es1')"
    by (auto simp: kind_def elim: is_dir_node.elims)
  have loc': "locate ?r' ?s (parts ?op) = Some L"
    by (rule locate_kind[where r = ?r1, OF kd loc])
  have "L = [] \<or> (\<exists>es. lookup ?r1 (butlast L) = Some (Dir es))"
    using l0 lookup_butlast_dir[of ?r1 L] by blast
  from lookup_put_same[OF this, of t "[]"] have new: "lookup ?r' L = Some t" by simp
  have ss: "start_of fs' ?op = ?s" and rr: "fs_root fs' = ?r'"
    by (simp_all add: fs' start_of_def)
  have res: "resolve fs' ?op = Some L"
    unfolding resolve_def ss rr using s1' loc' by simp
  from new have "lookup (fs_root fs') L = Some t" by (simp only: rr)
  with en td res show ?thesis by (rule that)
qed

text \<open>The directory \<^verbatim>\<open>os.mkdir\<close> has made is a fresh target.\<close>

lemma mkdir_fresh:
  assumes "mkdir fs p = Inr fs1"
  shows "fresh_target fs1 p"
proof -
  define r where "r = fs_root fs"
  define c where "c = last (parts p)"
  define bs where "bs = butlast (parts p)"
  from assms obtain l es where h: "parts p \<noteq> []" "c \<noteq> ''..''"
    "resolve fs (Path (anchor p) bs) = Some l"
    "lookup r l = Some (Dir es)" "map_of es c = None"
    "fs1 = fs\<lparr>fs_root := put r (l @ [c]) (Dir [])\<rparr>"
    by (auto simp: mkdir_def r_def c_def bs_def split: if_splits option.splits node.splits)
  define q where "q = l @ [c]"
  define r1 where "r1 = put r q (Dir [])"
  have pp: "parts p = bs @ [c]" using h(1) by (simp add: bs_def c_def)
  have absent: "lookup r q = None" using h(4,5) by (simp add: q_def lookup_snoc)
  have kd: "kind r1 x = kind r x" if "lookup r x \<noteq> None" for x
    unfolding r1_def
  proof (rule kind_put)
    show "lookup r (q @ [c']) = None" for c' using absent by (simp add: lookup_snoc)
    show "lookup r q = None \<or> kind r q = Some (is_dir_node (Dir []))" using absent by simp
    show "lookup r x \<noteq> None" by (rule that)
  qed
  define s where "s = start_of fs p"
  have s_eq: "start_of fs (Path (anchor p) bs) = s" by (simp add: s_def start_of_def)
  from h(3) obtain es0 where s0: "lookup r s = Some (Dir es0)"
    and loc: "locate r s bs = Some l"
    by (auto simp: resolve_def s_eq r_def split: option.splits node.splits)
  from s0 kd[of s] have "kind r1 s = Some True" by (simp add: kind_def)
  then obtain es0' where s0': "lookup r1 s = Some (Dir es0')"
    by (auto simp: kind_def elim: is_dir_node.elims)
  have loc': "locate r1 s bs = Some l"
    by (rule locate_kind[where r = r, OF kd loc])
  from h(4) kd[of l] have "kind r1 l = Some True" by (simp add: kind_def)
  then obtain es' where l': "lookup r1 l = Some (Dir es')"
    by (auto simp: kind_def elim: is_dir_node.elims)
  have new: "lookup r1 q = Some (Dir [])"
    using lookup_put_same[of q r "Dir []" "[]"] h(4) by (simp add: r1_def q_def)
  with l' have mo: "map_of es' c = Some (Dir [])" by (simp add: q_def lookup_snoc)
  have "locate r1 l [c] = Some q"
    using l' mo h(2) new by (simp add: q_def)
  with loc' have "locate r1 s (parts p) = Some q"
    by (simp add: pp locate_append)
  moreover have "start_of fs1 p = s" by (simp add: h(6) s_def start_of_def)
  moreover have "fs_root fs1 = r1" by (simp add: h(6) r1_def q_def)
  ultimately have "stat fs1 p = Some (Dir [])"
    using s0' new by (simp add: stat_def resolve_def)
  then show ?thesis by (simp add: fresh_target_def)
qed

text \<open>
  Components without \<^verbatim>\<open>'..'\<close> are resolved inside the directory they start from: what
  they name depends on that directory alone.
\<close>

lemma locate_inner:
  "''..'' \<notin> set rel \<Longrightarrow> lookup r l = Some t \<Longrightarrow>
   locate r l rel = (if lookup t rel = None then None else Some (l @ rel))"
proof (induction rel arbitrary: l t)
  case Nil
  then show ?case by simp
next
  case (Cons c rel)
  from Cons.prems(1) have c: "c \<noteq> ''..''" and nd: "''..'' \<notin> set rel" by auto
  show ?case
  proof (cases t)
    case (File d)
    with Cons.prems(2) show ?thesis by simp
  next
    case (Dir es)
    show ?thesis
    proof (cases "map_of es c")
      case None
      with Dir Cons.prems(2) c show ?thesis by simp
    next
      case (Some n)
      with Dir Cons.prems(2) have "lookup r (l @ [c]) = Some n" by (simp add: lookup_snoc)
      from Cons.IH[OF nd this] Some Dir Cons.prems(2) c show ?thesis by simp
    qed
  qed
qed

lemma stat_inner:
  assumes "resolve fs p = Some l" and "lookup (fs_root fs) l = Some t"
    and "''..'' \<notin> set rel"
  shows "stat fs (Path (anchor p) (parts p @ rel)) = lookup t rel"
proof -
  let ?r = "fs_root fs" and ?s = "start_of fs p"
  have st: "start_of fs (Path (anchor p) (parts p @ rel)) = ?s" by (simp add: start_of_def)
  from assms(1) obtain es0 where s0: "lookup ?r ?s = Some (Dir es0)"
    and loc: "locate ?r ?s (parts p) = Some l"
    by (auto simp: resolve_def split: option.splits node.splits)
  from loc have "locate ?r ?s (parts p @ rel) = locate ?r l rel"
    by (simp add: locate_append)
  also have "\<dots> = (if lookup t rel = None then None else Some (l @ rel))"
    using assms(3,2) by (rule locate_inner)
  finally have "resolve fs (Path (anchor p) (parts p @ rel))
      = (if lookup t rel = None then None else Some (l @ rel))"
    using s0 by (simp add: resolve_def st)
  moreover have "lookup ?r (l @ rel) = lookup t rel"
    using assms(2) by (simp add: lookup_append)
  ultimately show ?thesis by (simp add: stat_def)
qed

lemma parse_file_stat:
  "stat fs p = stat fs' p' \<Longrightarrow> parse_file ET_parse fs p = parse_file ET_parse fs' p'"
  by (simp add: parse_file_def read_file_def)

lemma extract_epub_container:
  assumes "extract_epub ET_parse fs epub output_dir = Inr (info, fs')"
  obtains root rootfile where
    "parse_file ET_parse fs'
       (join_str (join_str (parse_path output_dir) ''META-INF'') ''container.xml'') = Inr root"
    "find_desc CONTAINER_ROOTFILE root = Some rootfile"
    "map_of (attrib rootfile) ''full-path'' = Some (info_opf_path info)"
  using assms
  by (auto simp: extract_epub_def Let_def split: sum.splits if_splits option.splits)

lemma container_path:
  "join_str (join_str p ''META-INF'') ''container.xml''
     = Path (anchor p) (parts p @ [''META-INF'', ''container.xml''])"
proof -
  have "parse_path ''META-INF'' = Path [] [''META-INF'']"
    "parse_path ''container.xml'' = Path [] [''container.xml'']"
    by code_simp+
  then show ?thesis by (simp add: join_str_def joinpath_def)
qed

lemma join_inner:
  "inner_path s \<Longrightarrow> join_str p s = Path (anchor p) (parts p @ parts (parse_path s))"
  by (simp add: inner_path_def join_str_def joinpath_def)

text \<open>
  C9, as stated, fails: each function puts the directory it reads in front of the
  paths it returns. \<^verbatim>\<open>list_content_files\<close> extracts the archive into a temporary
  directory of its own, which is gone when it returns, and a caller extracts it
  elsewhere. For the example book, with the temporary directory \<^verbatim>\<open>/tmp/tmpab12\<close> and
  the caller's directory \<^verbatim>\<open>/tmp/x\<close>, the two lists of paths differ.
\<close>

theorem content_files_counterexample:
  "map_sum id (map path)
      (list_content_files example_parse example_fs example_epub ''/tmp/tmpab12'')
     = Inr [''/tmp/tmpab12/OEBPS/chapter1.xhtml'']
   \<and> (case extract_epub example_parse example_fs example_epub ''/tmp/x'' of
         Inl e \<Rightarrow> False
       | Inr (info, fs') \<Rightarrow>
           get_content_files example_parse fs' (info_extract_dir info) (info_opf_path info)
             = Inr [''/tmp/x/OEBPS/chapter1.xhtml'']
           \<and> get_content_files example_parse fs' (info_extract_dir info) (info_opf_path info)
             \<noteq> map_sum id (map path)
                  (list_content_files example_parse example_fs example_epub ''/tmp/tmpab12''))"
  by (intro conjI; code_simp)

text \<open>
  C9, amended. The two functions agree up to the directory. Let \<^verbatim>\<open>list_content_files\<close>
  have made its temporary directory and extracted the archive into it, let a caller
  have extracted the same archive into a fresh directory, let the package document
  parse, and let the package-document path of the descriptor and the hrefs of the
  manifest items be relative paths without \<^verbatim>\<open>'..'\<close>. Then \<^verbatim>\<open>get_content_files\<close>, run
  on the caller's directory with the directory and package-document path the extractor
  reported, returns one path for each entry \<^verbatim>\<open>list_content_files\<close> returns, in the
  same order: the href of the entry joined to the directory of the package document
  below the caller's directory, where the path of the entry is that href joined to the
  directory of the package document below the temporary directory.
\<close>

theorem content_files_agree:
  assumes mk: "mkdir fs (parse_path temp_dir) = Inr fs1"
    and ex1: "extract_epub ET_parse fs1 epub temp_dir = Inr (info1, fs2)"
    and fr: "fresh_target fs0 (parse_path output_dir)"
    and ex2: "extract_epub ET_parse fs0 epub output_dir = Inr (info, fs')"
    and pr: "parse_file ET_parse fs' (join_str (parse_path output_dir) (info_opf_path info))
               = Inr root"
    and io: "inner_path (info_opf_path info)"
    and ih: "list_all (\<lambda>item. inner_path (get_attr item ''href'' [])) (manifest_items root)"
  shows "\<exists>entries.
            list_content_files ET_parse fs epub temp_dir = Inr entries
          \<and> map path entries
              = map (\<lambda>e. str_path (join_str
                              (parent (join_str (parse_path temp_dir) (info_opf_path info)))
                              (href e))) entries
          \<and> get_content_files ET_parse fs' (info_extract_dir info) (info_opf_path info)
              = Inr (map (\<lambda>e. str_path (join_str
                                  (parent (join_str (parse_path output_dir) (info_opf_path info)))
                                  (href e))) entries)"
proof -
  let ?T = "parse_path temp_dir" and ?D = "parse_path output_dir"
  let ?opf = "info_opf_path info"
  let ?o = "parts (parse_path ?opf)"
  text \<open>both directories hold the same tree\<close>
  from mk have "fresh_target fs1 ?T" by (rule mkdir_fresh)
  from extract_epub_target[OF this ex1] obtain l1 t1 where
    t1: "extract_names epub (map filename epub) (Dir []) = Inr t1"
    and r1: "resolve fs2 ?T = Some l1" and lk1: "lookup (fs_root fs2) l1 = Some t1"
    by blast
  from extract_epub_target[OF fr ex2] obtain l t where
    t: "extract_names epub (map filename epub) (Dir []) = Inr t" and td: "is_dir_node t"
    and r: "resolve fs' ?D = Some l" and lk: "lookup (fs_root fs') l = Some t"
    by blast
  from t1 t have "t1 = t" by simp
  with lk1 have lk1: "lookup (fs_root fs2) l1 = Some t" by simp
  have same: "stat fs2 (Path (anchor ?T) (parts ?T @ rel)) = stat fs' (Path (anchor ?D) (parts ?D @ rel))"
    if "''..'' \<notin> set rel" for rel
    using stat_inner[OF r1 lk1 that] stat_inner[OF r lk that] by simp
  text \<open>the descriptor names the same package document\<close>
  have "stat fs2 (join_str (join_str ?T ''META-INF'') ''container.xml'')
      = stat fs' (join_str (join_str ?D ''META-INF'') ''container.xml'')"
    unfolding container_path by (rule same) simp
  then have cp: "parse_file ET_parse fs2 (join_str (join_str ?T ''META-INF'') ''container.xml'')
      = parse_file ET_parse fs' (join_str (join_str ?D ''META-INF'') ''container.xml'')"
    by (rule parse_file_stat)
  from ex1 obtain root1 rootfile1 where c1:
    "parse_file ET_parse fs2 (join_str (join_str ?T ''META-INF'') ''container.xml'') = Inr root1"
    "find_desc CONTAINER_ROOTFILE root1 = Some rootfile1"
    "map_of (attrib rootfile1) ''full-path'' = Some (info_opf_path info1)"
    by (rule extract_epub_container)
  from ex2 obtain root2 rootfile2 where c2:
    "parse_file ET_parse fs' (join_str (join_str ?D ''META-INF'') ''container.xml'') = Inr root2"
    "find_desc CONTAINER_ROOTFILE root2 = Some rootfile2"
    "map_of (attrib rootfile2) ''full-path'' = Some ?opf"
    by (rule extract_epub_container)
  from cp c1(1) c2(1) have "root1 = root2" by simp
  with c1(2,3) c2(2,3) have opf1: "info_opf_path info1 = ?opf" by simp
  from ex1 obtain o1 where info1:
    "info1 = \<lparr>info_extract_dir = str_path ?T, info_opf_path = o1,
              info_opf_full_path = str_path (join_str ?T o1)\<rparr>"
    by (rule extract_epub_info)
  from ex2 obtain o2 where info:
    "info = \<lparr>info_extract_dir = str_path ?D, info_opf_path = o2,
             info_opf_full_path = str_path (join_str ?D o2)\<rparr>"
    by (rule extract_epub_info)
  have a: "parse_path (info_opf_full_path info1) = join_str ?T ?opf"
    using opf1 by (simp add: info1 parse_str_path wf_join_str wf_parse_path)
  have b: "join_str (parse_path (info_extract_dir info)) ?opf = join_str ?D ?opf"
    by (simp add: info parse_str_path wf_parse_path)
  text \<open>the package document is the same, and so is its directory, seen from the target\<close>
  from io have ndo: "''..'' \<notin> set ?o" by (simp add: inner_path_def)
  have jT: "join_str ?T ?opf = Path (anchor ?T) (parts ?T @ ?o)"
    and jD: "join_str ?D ?opf = Path (anchor ?D) (parts ?D @ ?o)"
    using io by (simp_all add: join_inner)
  have so: "stat fs2 (join_str ?T ?opf) = stat fs' (join_str ?D ?opf)"
    unfolding jT jD using ndo by (rule same)
  then have "parse_file ET_parse fs2 (join_str ?T ?opf) = parse_file ET_parse fs' (join_str ?D ?opf)"
    by (rule parse_file_stat)
  with pr have pT: "parse_file ET_parse fs2 (join_str ?T ?opf) = Inr root" by simp
  have one: "?o \<noteq> []"
  proof
    assume e: "?o = []"
    from pr obtain d where "stat fs' (join_str ?D ?opf) = Some (File d)"
      by (auto simp: parse_file_def read_file_def split: sum.splits option.splits node.splits)
    moreover have "stat fs' (join_str ?D ?opf) = lookup t ?o"
      unfolding jD using r lk ndo by (rule stat_inner)
    ultimately have "t = File d" using e by simp
    with td show False by simp
  qed
  define dT where "dT = parent (join_str ?T ?opf)"
  define dD where "dD = parent (join_str ?D ?opf)"
  have dT: "dT = Path (anchor ?T) (parts ?T @ butlast ?o)"
    and dD: "dD = Path (anchor ?D) (parts ?D @ butlast ?o)"
    using one by (simp_all add: dT_def dD_def jT jD parent_def butlast_append)
  have ci: "content_item fs2 dT item = content_item fs' dD item"
    if "item \<in> set (manifest_items root)" for item
  proof -
    let ?h = "get_attr item ''href'' []"
    from ih that have ip: "inner_path ?h" by (simp add: list_all_iff)
    then have ndh: "''..'' \<notin> set (parts (parse_path ?h))" by (simp add: inner_path_def)
    have nd: "''..'' \<notin> set (butlast ?o @ parts (parse_path ?h))"
      using ndo ndh by (auto dest: in_set_butlastD)
    have "join_str dT ?h = Path (anchor ?T) (parts ?T @ (butlast ?o @ parts (parse_path ?h)))"
      "join_str dD ?h = Path (anchor ?D) (parts ?D @ (butlast ?o @ parts (parse_path ?h)))"
      using ip by (simp_all add: join_inner dT dD)
    with same[OF nd] have "stat fs2 (join_str dT ?h) = stat fs' (join_str dD ?h)" by simp
    then show ?thesis by (simp add: content_item_def path_exists_def)
  qed
  let ?items = "filter (content_item fs2 dT) (manifest_items root)"
  have fl: "filter (content_item fs' dD) (manifest_items root) = ?items"
    by (rule filter_cong[OF refl]) (simp add: ci)
  have li: "list_content_files ET_parse fs epub temp_dir = Inr (map (content_entry dT) ?items)"
    using mk ex1 pT
    by (simp add: list_content_files_def a dT_def manifest_items_def list_items_eq Let_def
        split: option.splits)
  have "get_content_files ET_parse fs' (info_extract_dir info) ?opf
      = Inr (map (\<lambda>item. str_path (join_str dD (get_attr item ''href'' [])))
               (filter (content_item fs' dD) (manifest_items root)))"
    using pr
    by (simp add: get_content_files_def b dD_def manifest_items_def get_items_eq Let_def
        split: option.splits)
  then have ge: "get_content_files ET_parse fs' (info_extract_dir info) ?opf
      = Inr (map (\<lambda>item. str_path (join_str dD (get_attr item ''href'' []))) ?items)"
    by (simp only: fl)
  show ?thesis
  proof (intro exI[where x = "map (content_entry dT) ?items"] conjI)
    show "list_content_files ET_parse fs epub temp_dir = Inr (map (content_entry dT) ?items)"
      by (rule li)
    show "map path (map (content_entry dT) ?items)
        = map (\<lambda>e. str_path (join_str (parent (join_str ?T ?opf)) (href e)))
            (map (content_entry dT) ?items)"
      by (simp add: content_entry_def dT_def comp_def)
    show "get_content_files ET_parse fs' (info_extract_dir info) ?opf
        = Inr (map (\<lambda>e. str_path (join_str (parent (join_str ?D ?opf)) (href e)))
                 (map (content_entry dT) ?items))"
      by (simp add: ge content_entry_def dD_def comp_def)
  qed
qed

lemma example_parse_x:
  "parse_file example_parse
     (snd (projr (extract_epub example_parse example_fs example_epub ''/tmp/x'')))
     (join_str (parse_path ''/tmp/x'')
        (info_opf_path \<lparr>info_extract_dir = ''/tmp/x'', info_opf_path = ''OEBPS/content.opf'',
                        info_opf_full_path = ''/tmp/x/OEBPS/content.opf''\<rparr>))
   = Inr example_opf"
  by code_simp

lemma example_inner_opf:
  "inner_path (info_opf_path \<lparr>info_extract_dir = ''/tmp/x'', info_opf_path = ''OEBPS/content.opf'',
                              info_opf_full_path = ''/tmp/x/OEBPS/content.opf''\<rparr>)"
  by code_simp

lemma example_inner_hrefs:
  "list_all (\<lambda>item. inner_path (get_attr item ''href'' [])) (manifest_items example_opf)"
  by code_simp

lemma example_list_tmp:
  "list_content_files example_parse example_fs example_epub ''/tmp/tmpab12''
     = Inr [\<lparr>item_id = ''ch1'', href = ''chapter1.xhtml'',
              path = ''/tmp/tmpab12/OEBPS/chapter1.xhtml'',
              media_type = ''application/xhtml+xml''\<rparr>]"
  by code_simp

lemma example_joined_x:
  "str_path (join_str (parent (join_str (parse_path ''/tmp/x'') ''OEBPS/content.opf''))
      ''chapter1.xhtml'') = ''/tmp/x/OEBPS/chapter1.xhtml''"
  by code_simp

theorem content_files_agree_witness:
  "\<exists>fs1 info1 fs2 info fs'.
     mkdir example_fs (parse_path ''/tmp/tmpab12'') = Inr fs1
   \<and> extract_epub example_parse fs1 example_epub ''/tmp/tmpab12'' = Inr (info1, fs2)
   \<and> fresh_target example_fs (parse_path ''/tmp/x'')
   \<and> extract_epub example_parse example_fs example_epub ''/tmp/x'' = Inr (info, fs')
   \<and> parse_file example_parse fs' (join_str (parse_path ''/tmp/x'') (info_opf_path info))
       = Inr example_opf
   \<and> inner_path (info_opf_path info)
   \<and> list_all (\<lambda>item. inner_path (get_attr item ''href'' [])) (manifest_items example_opf)
   \<and> list_content_files example_parse example_fs example_epub ''/tmp/tmpab12''
       = Inr [\<lparr>item_id = ''ch1'', href = ''chapter1.xhtml'',
                path = ''/tmp/tmpab12/OEBPS/chapter1.xhtml'',
                media_type = ''application/xhtml+xml''\<rparr>]
   \<and> get_content_files example_parse fs' (info_extract_dir info) (info_opf_path info)
       = Inr [''/tmp/x/OEBPS/chapter1.xhtml'']"
proof -
  from content_files_agree[OF example_mkdir_tmp example_extract_tmp example_fresh
      example_extract_x example_parse_x example_inner_opf example_inner_hrefs]
  obtain entries where e:
    "list_content_files example_parse example_fs example_epub ''/tmp/tmpab12'' = Inr entries"
    "get_content_files example_parse
       (snd (projr (extract_epub example_parse example_fs example_epub ''/tmp/x'')))
       (info_extract_dir \<lparr>info_extract_dir = ''/tmp/x'', info_opf_path = ''OEBPS/content.opf'',
                          info_opf_full_path = ''/tmp/x/OEBPS/content.opf''\<rparr>)
       (info_opf_path \<lparr>info_extract_dir = ''/tmp/x'', info_opf_path = ''OEBPS/content.opf'',
                        info_opf_full_path = ''/tmp/x/OEBPS/content.opf''\<rparr>)
     = Inr (map (\<lambda>e. str_path (join_str
                (parent (join_str (parse_path ''/tmp/x'')
                   (info_opf_path \<lparr>info_extract_dir = ''/tmp/x'',
                      info_opf_path = ''OEBPS/content.opf'',
                      info_opf_full_path = ''/tmp/x/OEBPS/content.opf''\<rparr>)))
                (href e))) entries)"
    by (elim exE conjE)
  from e(1) example_list_tmp have "entries = [\<lparr>item_id = ''ch1'', href = ''chapter1.xhtml'',
              path = ''/tmp/tmpab12/OEBPS/chapter1.xhtml'',
              media_type = ''application/xhtml+xml''\<rparr>]"
    by simp
  with e(2) have g: "get_content_files example_parse
       (snd (projr (extract_epub example_parse example_fs example_epub ''/tmp/x'')))
       (info_extract_dir \<lparr>info_extract_dir = ''/tmp/x'', info_opf_path = ''OEBPS/content.opf'',
                          info_opf_full_path = ''/tmp/x/OEBPS/content.opf''\<rparr>)
       (info_opf_path \<lparr>info_extract_dir = ''/tmp/x'', info_opf_path = ''OEBPS/content.opf'',
                        info_opf_full_path = ''/tmp/x/OEBPS/content.opf''\<rparr>)
     = Inr [''/tmp/x/OEBPS/chapter1.xhtml'']"
    by (simp add: example_joined_x)
  from example_mkdir_tmp example_extract_tmp example_fresh example_extract_x example_parse_x
    example_inner_opf example_inner_hrefs example_list_tmp g
  show ?thesis
    by (intro exI conjI)
qed


end
